theory Spec2Isabelle
  imports Main "HOL-Library.Word" "HOL-Library.Sublist" "HOL-Library.Monad_Syntax"
begin

section \<open>Strings, clock readings and the task record\<close>

text \<open>
  A JavaScript string is a sequence of UTF-16 code units. \<open>lit\<close> turns an ASCII
  literal into its code units.
\<close>

type_synonym js_string = "16 word list"

definition lit :: "string \<Rightarrow> js_string" where
  "lit s = map (\<lambda>c. of_nat (of_char c)) s"

text \<open>
  \<open>String.prototype.trim\<close> removes the WhiteSpace and LineTerminator code points
  of ECMAScript from both ends: TAB, LF, VT, FF, CR, SP, NBSP, U+1680, U+2000 to U+200A,
  U+2028, U+2029, U+202F, U+205F, U+3000 and U+FEFF.
\<close>

definition is_trim_space :: "16 word \<Rightarrow> bool" where
  "is_trim_space c \<longleftrightarrow>
     c = 0x09 \<or> c = 0x0A \<or> c = 0x0B \<or> c = 0x0C \<or> c = 0x0D \<or> c = 0x20 \<or> c = 0xA0 \<or>
     c = 0x1680 \<or> (0x2000 \<le> c \<and> c \<le> 0x200A) \<or> c = 0x2028 \<or> c = 0x2029 \<or>
     c = 0x202F \<or> c = 0x205F \<or> c = 0x3000 \<or> c = 0xFEFF"

definition trim :: "js_string \<Rightarrow> js_string" where
  "trim s = rev (dropWhile is_trim_space (rev (dropWhile is_trim_space s)))"

text \<open>
  \<open>Number.prototype.toString\<close> on an integer below \<open>10^21\<close> in magnitude (every
  reading of \<open>Date.now()\<close> is one): the decimal digits, with a leading minus sign.
\<close>

definition digit :: "nat \<Rightarrow> 16 word" where
  "digit d = of_nat (48 + d)"

fun dec_digits :: "nat \<Rightarrow> js_string" where
  "dec_digits n = (if n < 10 then [digit n] else dec_digits (n div 10) @ [digit (n mod 10)])"

declare dec_digits.simps [simp del]

definition Number_toString :: "int \<Rightarrow> js_string" where
  "Number_toString n = (if n < 0 then 0x2D # dec_digits (nat (- n)) else dec_digits (nat n))"

text \<open>
  A \<open>Date\<close> object holds a time value: NaN (an invalid date) or a whole number of
  milliseconds since the epoch.
\<close>

datatype js_date = Invalid_Date | Time_Value int

record task =
  task_id :: js_string
  task_text :: js_string
  completed :: bool
  createdAt :: js_date

datatype FilterType = Filter_all | Filter_active | Filter_completed

text \<open>The four \<open>useState\<close> cells of the component.\<close>

record app_state =
  tasks :: "task list"
  newTask :: js_string
  filter_sel :: FilterType
  isFilterMenuOpen :: bool

definition initial :: app_state where
  "initial = \<lparr>tasks = [], newTask = [], filter_sel = Filter_all, isFilterMenuOpen = False\<rparr>"

section \<open>Command handlers\<close>

text \<open>
  \<open>addTask\<close> reads the clock twice: \<open>Date.now()\<close> for the id and \<open>new Date()\<close> for
  \<open>createdAt\<close>. Both readings are inputs of the model.
\<close>

definition addTask :: "int \<Rightarrow> int \<Rightarrow> app_state \<Rightarrow> app_state" where
  "addTask now created st =
     (if trim (newTask st) = [] then st
      else st\<lparr>tasks := tasks st @
                 [\<lparr>task_id = Number_toString now, task_text = trim (newTask st),
                   completed = False, createdAt = Time_Value created\<rparr>],
              newTask := []\<rparr>)"

definition toggleTaskCompletion :: "js_string \<Rightarrow> app_state \<Rightarrow> app_state" where
  "toggleTaskCompletion i st =
     st\<lparr>tasks := map (\<lambda>t. if task_id t = i then t\<lparr>completed := \<not> completed t\<rparr> else t)
                     (tasks st)\<rparr>"

definition deleteTask :: "js_string \<Rightarrow> app_state \<Rightarrow> app_state" where
  "deleteTask i st = st\<lparr>tasks := filter (\<lambda>t. task_id t \<noteq> i) (tasks st)\<rparr>"

definition setNewTask :: "js_string \<Rightarrow> app_state \<Rightarrow> app_state" where
  "setNewTask s st = st\<lparr>newTask := s\<rparr>"

section \<open>View filter and derived counts\<close>

definition filteredTasks :: "app_state \<Rightarrow> task list" where
  "filteredTasks st =
     filter (\<lambda>t. if filter_sel st = Filter_active then \<not> completed t
                 else if filter_sel st = Filter_completed then completed t
                 else True) (tasks st)"

definition totalTasks :: "app_state \<Rightarrow> int" where
  "totalTasks st = int (length (tasks st))"

definition completedTasks :: "app_state \<Rightarrow> int" where
  "completedTasks st = int (length (filter completed (tasks st)))"

definition activeTasks :: "app_state \<Rightarrow> int" where
  "activeTasks st = totalTasks st - completedTasks st"

section \<open>Filter selector\<close>

text \<open>
  The controls that change the filter: the header button toggles the menu; the three
  menu items exist only while the menu is open; the "Show all tasks" button exists only
  while the visible list is empty and the filter is not \<open>all\<close>. A click on a control
  that is not rendered is \<open>None\<close>.
\<close>

datatype ui_event = Click_filter_button | Click_menu_item FilterType | Click_show_all

fun ui_step :: "ui_event \<Rightarrow> app_state \<Rightarrow> app_state option" where
  "ui_step Click_filter_button st = Some (st\<lparr>isFilterMenuOpen := \<not> isFilterMenuOpen st\<rparr>)"
| "ui_step (Click_menu_item f) st =
     (if isFilterMenuOpen st then Some (st\<lparr>filter_sel := f, isFilterMenuOpen := False\<rparr>)
      else None)"
| "ui_step Click_show_all st =
     (if filteredTasks st = [] \<and> filter_sel st \<noteq> Filter_all
      then Some (st\<lparr>filter_sel := Filter_all\<rparr>) else None)"

section \<open>Sessions\<close>

text \<open>
  Everything a user can do to the component: type into the input, submit the form (with
  the two clock readings of that submission), click a task's toggle or delete button,
  or use a filter control.
\<close>

datatype event =
    Type_input js_string
  | Submit int int
  | Toggle js_string
  | Delete js_string
  | Ui ui_event

fun step :: "app_state \<Rightarrow> event \<Rightarrow> app_state" where
  "step st (Type_input s) = setNewTask s st"
| "step st (Submit now created) = addTask now created st"
| "step st (Toggle i) = toggleTaskCompletion i st"
| "step st (Delete i) = deleteTask i st"
| "step st (Ui e) = (case ui_step e st of None \<Rightarrow> st | Some st' \<Rightarrow> st')"

definition run :: "event list \<Rightarrow> app_state" where
  "run es = foldl step initial es"

text \<open>
  The invariant on stored texts: every text is non-empty and is its own trimmed form.
\<close>

definition texts_trimmed :: "task list \<Rightarrow> bool" where
  "texts_trimmed ts \<longleftrightarrow>
     list_all (\<lambda>t. task_text t \<noteq> [] \<and> trim (task_text t) = task_text t) ts"



text \<open>The \<open>Date.now()\<close> readings of the submissions in a session, in order.\<close>

fun submit_readings :: "event list \<Rightarrow> int list" where
  "submit_readings [] = []"
| "submit_readings (Submit now created # es) = now # submit_readings es"
| "submit_readings (e # es) = submit_readings es"

section \<open>Time values and their string form\<close>

text \<open>
  \<open>JSON.stringify\<close> writes a \<open>Date\<close> through \<open>Date.prototype.toISOString\<close> and
  the mount effect reads it back with \<open>new Date(string)\<close>. Both are functions of
  ECMAScript, not of the repository; they are modelled after the definitions of the
  language specification (Day, TimeWithinDay, DayFromYear, YearFromTime, MonthFromTime,
  DateFromTime, MakeTime, MakeDay, MakeDate, TimeClip), in whole milliseconds and in UTC.
  \<open>YearFromTime\<close> is specified there as the largest year whose first day is not after
  the time; here it is computed from an estimate, and \<open>YearFromTime_spec\<close> below shows
  that the computed year is that one.
\<close>

definition msPerDay :: int where
  "msPerDay = 86400000"

definition Day :: "int \<Rightarrow> int" where
  "Day t = t div msPerDay"

definition TimeWithinDay :: "int \<Rightarrow> int" where
  "TimeWithinDay t = t mod msPerDay"

definition DayFromYear :: "int \<Rightarrow> int" where
  "DayFromYear y =
     365 * (y - 1970) + (y - 1969) div 4 - (y - 1901) div 100 + (y - 1601) div 400"

definition YearFromTime :: "int \<Rightarrow> int" where
  "YearFromTime t =
     (let d = Day t; e = 1970 + (400 * d) div 146097
      in if DayFromYear (e + 1) \<le> d then e + 1
         else if DayFromYear e \<le> d then e
         else e - 1)"

definition leap_year :: "int \<Rightarrow> bool" where
  "leap_year y \<longleftrightarrow> (y mod 4 = 0 \<and> y mod 100 \<noteq> 0) \<or> y mod 400 = 0"

definition DaysInYear :: "int \<Rightarrow> int" where
  "DaysInYear y = (if leap_year y then 366 else 365)"

definition DayWithinYear :: "int \<Rightarrow> int" where
  "DayWithinYear t = Day t - DayFromYear (YearFromTime t)"

definition InLeapYear :: "int \<Rightarrow> int" where
  "InLeapYear t = (if DaysInYear (YearFromTime t) = 366 then 1 else 0)"

definition month_start :: "int \<Rightarrow> int \<Rightarrow> int" where
  "month_start l m =
     (if m = 0 then 0 else if m = 1 then 31 else if m = 2 then 59 + l
      else if m = 3 then 90 + l else if m = 4 then 120 + l else if m = 5 then 151 + l
      else if m = 6 then 181 + l else if m = 7 then 212 + l else if m = 8 then 243 + l
      else if m = 9 then 273 + l else if m = 10 then 304 + l else if m = 11 then 334 + l
      else 365 + l)"

definition MonthFromTime :: "int \<Rightarrow> int" where
  "MonthFromTime t =
     (let d = DayWithinYear t; l = InLeapYear t
      in if d < 31 then 0 else if d < 59 + l then 1 else if d < 90 + l then 2
         else if d < 120 + l then 3 else if d < 151 + l then 4 else if d < 181 + l then 5
         else if d < 212 + l then 6 else if d < 243 + l then 7 else if d < 273 + l then 8
         else if d < 304 + l then 9 else if d < 334 + l then 10 else 11)"

definition DateFromTime :: "int \<Rightarrow> int" where
  "DateFromTime t = DayWithinYear t + 1 - month_start (InLeapYear t) (MonthFromTime t)"

definition HourFromTime :: "int \<Rightarrow> int" where
  "HourFromTime t = (TimeWithinDay t div 3600000) mod 24"

definition MinFromTime :: "int \<Rightarrow> int" where
  "MinFromTime t = (TimeWithinDay t div 60000) mod 60"

definition SecFromTime :: "int \<Rightarrow> int" where
  "SecFromTime t = (TimeWithinDay t div 1000) mod 60"

definition msFromTime :: "int \<Rightarrow> int" where
  "msFromTime t = TimeWithinDay t mod 1000"

definition MakeTime :: "int \<Rightarrow> int \<Rightarrow> int \<Rightarrow> int \<Rightarrow> int" where
  "MakeTime h m s ms = h * 3600000 + m * 60000 + s * 1000 + ms"

definition MakeDay :: "int \<Rightarrow> int \<Rightarrow> int \<Rightarrow> int" where
  "MakeDay y m d = DayFromYear y + month_start (if leap_year y then 1 else 0) m + d - 1"

definition MakeDate :: "int \<Rightarrow> int \<Rightarrow> int" where
  "MakeDate day time = day * msPerDay + time"

definition TimeClip :: "int \<Rightarrow> js_date" where
  "TimeClip t = (if \<bar>t\<bar> > 8640000000000000 then Invalid_Date else Time_Value t)"

text \<open>
  \<open>pad n v\<close> is the decimal form of \<open>v\<close> in exactly \<open>n\<close> digits. The string form of
  a time value is \<open>YYYY-MM-DDTHH:mm:ss.sssZ\<close>, with a sign and six digits for a year
  outside 0 to 9999.
\<close>

fun pad :: "nat \<Rightarrow> nat \<Rightarrow> js_string" where
  "pad 0 v = []"
| "pad (Suc n) v = pad n (v div 10) @ [digit (v mod 10)]"

definition year_string :: "int \<Rightarrow> js_string" where
  "year_string y =
     (if 0 \<le> y \<and> y \<le> 9999 then pad 4 (nat y)
      else (if y < 0 then 0x2D else 0x2B) # pad 6 (nat \<bar>y\<bar>))"

definition toISOString :: "int \<Rightarrow> js_string" where
  "toISOString t =
     year_string (YearFromTime t) @
     [0x2D] @ pad 2 (nat (MonthFromTime t + 1)) @
     [0x2D] @ pad 2 (nat (DateFromTime t)) @
     [0x54] @ pad 2 (nat (HourFromTime t)) @
     [0x3A] @ pad 2 (nat (MinFromTime t)) @
     [0x3A] @ pad 2 (nat (SecFromTime t)) @
     [0x2E] @ pad 3 (nat (msFromTime t)) @ [0x5A]"

text \<open>
  \<open>Date.parse\<close>: a string in exactly the form above, with fields that name a date and
  time that exist, has the time value the fields give. What any other string parses to
  is left to the platform (other forms of the format, and the implementation-defined
  fallback), as the parameter \<open>other\<close>.
\<close>

definition is_digit :: "16 word \<Rightarrow> bool" where
  "is_digit c \<longleftrightarrow> 0x30 \<le> c \<and> c \<le> 0x39"

fun read_digits :: "nat \<Rightarrow> nat \<Rightarrow> js_string \<Rightarrow> (nat \<times> js_string) option" where
  "read_digits 0 acc s = Some (acc, s)"
| "read_digits (Suc n) acc [] = None"
| "read_digits (Suc n) acc (c # cs) =
     (if is_digit c then read_digits n (10 * acc + (unat c - 48)) cs else None)"

fun expect :: "16 word \<Rightarrow> js_string \<Rightarrow> js_string option" where
  "expect c [] = None"
| "expect c (x # xs) = (if x = c then Some xs else None)"

definition iso_fields :: "int \<Rightarrow> js_string \<Rightarrow> int option" where
  "iso_fields y s0 =
     do {
       s1 \<leftarrow> expect 0x2D s0;
       (mo, s2) \<leftarrow> read_digits 2 0 s1;
       s3 \<leftarrow> expect 0x2D s2;
       (d, s4) \<leftarrow> read_digits 2 0 s3;
       s5 \<leftarrow> expect 0x54 s4;
       (h, s6) \<leftarrow> read_digits 2 0 s5;
       s7 \<leftarrow> expect 0x3A s6;
       (mi, s8) \<leftarrow> read_digits 2 0 s7;
       s9 \<leftarrow> expect 0x3A s8;
       (sec, s10) \<leftarrow> read_digits 2 0 s9;
       s11 \<leftarrow> expect 0x2E s10;
       (ms, s12) \<leftarrow> read_digits 3 0 s11;
       s13 \<leftarrow> expect 0x5A s12;
       if s13 = [] \<and> 1 \<le> mo \<and> mo \<le> 12 \<and> 1 \<le> d \<and>
          int d \<le> month_start (if leap_year y then 1 else 0) (int mo) -
                    month_start (if leap_year y then 1 else 0) (int mo - 1) \<and>
          h \<le> 23 \<and> mi \<le> 59 \<and> sec \<le> 59
       then Some (MakeDate (MakeDay y (int mo - 1) (int d))
                    (MakeTime (int h) (int mi) (int sec) (int ms)))
       else None
     }"

definition read_year :: "js_string \<Rightarrow> (int \<times> js_string) option" where
  "read_year s =
     (case s of
        [] \<Rightarrow> None
      | c # cs \<Rightarrow>
          if c = 0x2B then
            (case read_digits 6 0 cs of None \<Rightarrow> None | Some (y, r) \<Rightarrow> Some (int y, r))
          else if c = 0x2D then
            (case read_digits 6 0 cs of
               None \<Rightarrow> None
             | Some (y, r) \<Rightarrow> if y = 0 then None else Some (- int y, r))
          else
            (case read_digits 4 0 s of None \<Rightarrow> None | Some (y, r) \<Rightarrow> Some (int y, r)))"

definition parse_iso_utc :: "js_string \<Rightarrow> int option" where
  "parse_iso_utc s =
     (case read_year s of None \<Rightarrow> None | Some (y, r) \<Rightarrow> iso_fields y r)"

definition Date_parse :: "(js_string \<Rightarrow> js_date) \<Rightarrow> js_string \<Rightarrow> js_date" where
  "Date_parse other s = (case parse_iso_utc s of Some t \<Rightarrow> TimeClip t | None \<Rightarrow> other s)"

section \<open>The persistence format\<close>

text \<open>
  The task list is kept under the key \<open>tasks\<close> as the text \<open>JSON.stringify\<close> gives.
  \<open>JSON.stringify\<close> and \<open>JSON.parse\<close> are functions of ECMAScript, not of the
  repository; they are modelled after the language specification. A parsed number keeps
  the text it was written with: the model has no floating point.
\<close>

datatype json =
    JNull
  | JBool bool
  | JNum js_string
  | JStr js_string
  | JArr "json list"
  | JObj "(js_string \<times> json) list"

subsection \<open>Writing\<close>

definition hex_digit :: "nat \<Rightarrow> 16 word" where
  "hex_digit n = (if n < 10 then of_nat (48 + n) else of_nat (87 + n))"

definition unicode_escape :: "16 word \<Rightarrow> js_string" where
  "unicode_escape c =
     [0x5C, 0x75, hex_digit (unat c div 4096), hex_digit (unat c div 256 mod 16),
      hex_digit (unat c div 16 mod 16), hex_digit (unat c mod 16)]"

definition is_high_surrogate :: "16 word \<Rightarrow> bool" where
  "is_high_surrogate c \<longleftrightarrow> 0xD800 \<le> c \<and> c \<le> 0xDBFF"

definition is_low_surrogate :: "16 word \<Rightarrow> bool" where
  "is_low_surrogate c \<longleftrightarrow> 0xDC00 \<le> c \<and> c \<le> 0xDFFF"

text \<open>
  \<open>QuoteJSONString\<close>: the quotation mark, the backslash and the control characters are
  escaped, a surrogate that is not part of a pair is written as a \<open>\u\<close> escape, and every
  other code unit stands for itself.
\<close>

definition quote_unit :: "16 word \<Rightarrow> js_string" where
  "quote_unit c =
     (if c = 0x08 then [0x5C, 0x62]
      else if c = 0x09 then [0x5C, 0x74]
      else if c = 0x0A then [0x5C, 0x6E]
      else if c = 0x0C then [0x5C, 0x66]
      else if c = 0x0D then [0x5C, 0x72]
      else if c = 0x22 then [0x5C, 0x22]
      else if c = 0x5C then [0x5C, 0x5C]
      else if c < 0x20 \<or> is_high_surrogate c \<or> is_low_surrogate c then unicode_escape c
      else [c])"

fun quote_units :: "js_string \<Rightarrow> js_string" where
  "quote_units [] = []"
| "quote_units [c] = quote_unit c"
| "quote_units (c # d # cs) =
     (if is_high_surrogate c \<and> is_low_surrogate d then c # d # quote_units cs
      else quote_unit c @ quote_units (d # cs))"

definition QuoteJSONString :: "js_string \<Rightarrow> js_string" where
  "QuoteJSONString s = 0x22 # quote_units s @ [0x22]"

text \<open>
  \<open>Date.prototype.toJSON\<close> gives \<open>null\<close> for an invalid date and the string form of
  the time value otherwise.
\<close>

definition Date_toJSON :: "js_date \<Rightarrow> js_string" where
  "Date_toJSON d =
     (case d of Invalid_Date \<Rightarrow> lit ''null'' | Time_Value t \<Rightarrow> QuoteJSONString (toISOString t))"

definition stringify_task :: "task \<Rightarrow> js_string" where
  "stringify_task t =
     lit ''{\"id\":'' @ QuoteJSONString (task_id t) @
     lit '',\"text\":'' @ QuoteJSONString (task_text t) @
     lit '',\"completed\":'' @ (if completed t then lit ''true'' else lit ''false'') @
     lit '',\"createdAt\":'' @ Date_toJSON (createdAt t) @ lit ''}''"

fun join_comma :: "js_string list \<Rightarrow> js_string" where
  "join_comma [] = []"
| "join_comma [x] = x"
| "join_comma (x # y # ys) = x @ 0x2C # join_comma (y # ys)"

text \<open>\<open>JSON.stringify(tasks)\<close>, as the save effect calls it.\<close>

definition JSON_stringify :: "task list \<Rightarrow> js_string" where
  "JSON_stringify ts = 0x5B # join_comma (map stringify_task ts) @ [0x5D]"

subsection \<open>Reading: tokens\<close>

definition hex_val :: "16 word \<Rightarrow> nat option" where
  "hex_val c =
     (if 0x30 \<le> c \<and> c \<le> 0x39 then Some (unat c - 48)
      else if 0x61 \<le> c \<and> c \<le> 0x66 then Some (unat c - 87)
      else if 0x41 \<le> c \<and> c \<le> 0x46 then Some (unat c - 55)
      else None)"

definition hex4 :: "16 word \<Rightarrow> 16 word \<Rightarrow> 16 word \<Rightarrow> 16 word \<Rightarrow> 16 word option" where
  "hex4 a b c d =
     (case (hex_val a, hex_val b, hex_val c, hex_val d) of
        (Some p, Some q, Some r, Some s) \<Rightarrow> Some (of_nat (((p * 16 + q) * 16 + r) * 16 + s))
      | _ \<Rightarrow> None)"

definition simple_escape :: "16 word \<Rightarrow> 16 word option" where
  "simple_escape e =
     (if e = 0x22 then Some 0x22
      else if e = 0x5C then Some 0x5C
      else if e = 0x2F then Some 0x2F
      else if e = 0x62 then Some 0x08
      else if e = 0x66 then Some 0x0C
      else if e = 0x6E then Some 0x0A
      else if e = 0x72 then Some 0x0D
      else if e = 0x74 then Some 0x09
      else None)"

definition cons_string :: "16 word \<Rightarrow> (js_string \<times> js_string) option \<Rightarrow> (js_string \<times> js_string) option" where
  "cons_string c r = (case r of None \<Rightarrow> None | Some (s, rest) \<Rightarrow> Some (c # s, rest))"

text \<open>
  The characters of a string after its opening quotation mark: the string's value and
  the text after the closing quotation mark.
\<close>

fun lex_string :: "js_string \<Rightarrow> (js_string \<times> js_string) option" where
  "lex_string [] = None"
| "lex_string (c # cs) =
     (if c = 0x22 then Some ([], cs)
      else if c = 0x5C then
        (case cs of
           [] \<Rightarrow> None
         | e # es \<Rightarrow>
             if e = 0x75 then
               (case es of
                  h1 # h2 # h3 # h4 # r \<Rightarrow>
                    (case hex4 h1 h2 h3 h4 of
                       None \<Rightarrow> None
                     | Some u \<Rightarrow> cons_string u (lex_string r))
                | _ \<Rightarrow> None)
             else
               (case simple_escape e of
                  None \<Rightarrow> None
                | Some u \<Rightarrow> cons_string u (lex_string es)))
      else if c < 0x20 then None
      else cons_string c (lex_string cs))"

text \<open>
  A number: an optional minus sign, \<open>0\<close> or a digit from 1 to 9 followed by digits, an
  optional fraction and an optional exponent.
\<close>

definition lex_int :: "js_string \<Rightarrow> (js_string \<times> js_string) option" where
  "lex_int s =
     (case s of
        [] \<Rightarrow> None
      | c # cs \<Rightarrow>
          if c = 0x30 then Some ([c], cs)
          else if is_digit c then Some (c # takeWhile is_digit cs, dropWhile is_digit cs)
          else None)"

definition lex_frac :: "js_string \<Rightarrow> js_string \<times> js_string" where
  "lex_frac s =
     (case s of
        c # d # ds \<Rightarrow>
          if c = 0x2E \<and> is_digit d then (c # d # takeWhile is_digit ds, dropWhile is_digit ds)
          else ([], s)
      | _ \<Rightarrow> ([], s))"

definition lex_exp :: "js_string \<Rightarrow> js_string \<times> js_string" where
  "lex_exp s =
     (case s of
        c # d # ds \<Rightarrow>
          if c = 0x65 \<or> c = 0x45 then
            (if is_digit d then (c # d # takeWhile is_digit ds, dropWhile is_digit ds)
             else if d = 0x2B \<or> d = 0x2D then
               (case ds of
                  e # es \<Rightarrow>
                    if is_digit e then (c # d # e # takeWhile is_digit es, dropWhile is_digit es)
                    else ([], s)
                | [] \<Rightarrow> ([], s))
             else ([], s))
          else ([], s)
      | _ \<Rightarrow> ([], s))"

definition lex_unsigned :: "js_string \<Rightarrow> (js_string \<times> js_string) option" where
  "lex_unsigned s =
     (case lex_int s of
        None \<Rightarrow> None
      | Some (i, s2) \<Rightarrow>
          (case lex_frac s2 of
             (f, s3) \<Rightarrow> (case lex_exp s3 of (e, s4) \<Rightarrow> Some (i @ f @ e, s4))))"

definition lex_number :: "js_string \<Rightarrow> (js_string \<times> js_string) option" where
  "lex_number s =
     (case s of
        [] \<Rightarrow> None
      | c # cs \<Rightarrow>
          if c = 0x2D then
            (case lex_unsigned cs of None \<Rightarrow> None | Some (n, r) \<Rightarrow> Some (c # n, r))
          else lex_unsigned s)"

datatype token =
    T_lbrace | T_rbrace | T_lbrack | T_rbrack | T_colon | T_comma
  | T_string js_string | T_number js_string | T_true | T_false | T_null

definition is_json_space :: "16 word \<Rightarrow> bool" where
  "is_json_space c \<longleftrightarrow> c = 0x20 \<or> c = 0x09 \<or> c = 0x0A \<or> c = 0x0D"

definition strip_prefix :: "js_string \<Rightarrow> js_string \<Rightarrow> js_string option" where
  "strip_prefix p s = (if take (length p) s = p then Some (drop (length p) s) else None)"

definition cons_token :: "token \<Rightarrow> token list option \<Rightarrow> token list option" where
  "cons_token t r = (case r of None \<Rightarrow> None | Some ts \<Rightarrow> Some (t # ts))"

function lex :: "js_string \<Rightarrow> token list option" where
  "lex [] = Some []"
| "lex (c # cs) =
     (if is_json_space c then lex cs
      else if c = 0x7B then cons_token T_lbrace (lex cs)
      else if c = 0x7D then cons_token T_rbrace (lex cs)
      else if c = 0x5B then cons_token T_lbrack (lex cs)
      else if c = 0x5D then cons_token T_rbrack (lex cs)
      else if c = 0x3A then cons_token T_colon (lex cs)
      else if c = 0x2C then cons_token T_comma (lex cs)
      else if c = 0x22 then
        (case lex_string cs of
           None \<Rightarrow> None
         | Some (s, r) \<Rightarrow> cons_token (T_string s) (lex r))
      else if c = 0x74 then
        (case strip_prefix (lit ''rue'') cs of
           None \<Rightarrow> None
         | Some r \<Rightarrow> cons_token T_true (lex r))
      else if c = 0x66 then
        (case strip_prefix (lit ''alse'') cs of
           None \<Rightarrow> None
         | Some r \<Rightarrow> cons_token T_false (lex r))
      else if c = 0x6E then
        (case strip_prefix (lit ''ull'') cs of
           None \<Rightarrow> None
         | Some r \<Rightarrow> cons_token T_null (lex r))
      else if c = 0x2D \<or> is_digit c then
        (case lex_number (c # cs) of
           None \<Rightarrow> None
         | Some (n, r) \<Rightarrow> cons_token (T_number n) (lex r))
      else None)"
  by pat_completeness auto
termination
proof -
  have str: "length r \<le> length s" if "lex_string s = Some (v, r)" for s v r
    using that
  proof (induction s arbitrary: v r rule: lex_string.induct)
    case 1
    then show ?case by simp
  next
    case (2 c cs)
    show ?case
    proof (cases "c = 0x22")
      case True
      with 2(4) show ?thesis by simp
    next
      case q: False
      show ?thesis
      proof (cases "c = 0x5C")
        case True
        then obtain e es where cs: "cs = e # es"
          using 2(4) q by (cases cs) auto
        show ?thesis
        proof (cases "e = 0x75")
          case u: True
          then obtain h1 h2 h3 h4 r' w where es: "es = h1 # h2 # h3 # h4 # r'"
            and w: "hex4 h1 h2 h3 h4 = Some w"
            using 2(4) q True cs by (auto split: list.splits option.splits)
          then obtain v' where "lex_string r' = Some (v', r)"
            using 2(4) q True cs u by (auto simp: cons_string_def split: option.splits)
          then have "length r \<le> length r'"
            using 2(1) [OF q True cs u es refl refl refl w] by simp
          then show ?thesis by (simp add: cs es)
        next
          case nu: False
          then obtain w where w: "simple_escape e = Some w"
            using 2(4) q True cs by (auto split: option.splits)
          then obtain v' where "lex_string es = Some (v', r)"
            using 2(4) q True cs nu by (auto simp: cons_string_def split: option.splits)
          then have "length r \<le> length es"
            using 2(2) [OF q True cs nu w] by simp
          then show ?thesis by (simp add: cs)
        qed
      next
        case b: False
        then have c20: "\<not> c < 0x20" using 2(4) q by (auto split: if_splits)
        then obtain v' where "lex_string cs = Some (v', r)"
          using 2(4) q b by (auto simp: cons_string_def split: option.splits)
        then have "length r \<le> length cs"
          using 2(3) [OF q b c20] by simp
        then show ?thesis by simp
      qed
    qed
  qed
  have pre: "length r \<le> length s" if "strip_prefix p s = Some r" for p s r
    using that by (auto simp: strip_prefix_def split: if_splits)
  have int: "length r < length s" if "lex_int s = Some (v, r)" for s v r
    using that
    by (auto simp: lex_int_def length_dropWhile_le less_Suc_eq_le split: list.splits if_splits)
  have frac: "length (snd (lex_frac s)) \<le> length s" for s
    by (auto simp: lex_frac_def length_dropWhile_le le_SucI split: list.splits)
  have exp: "length (snd (lex_exp s)) \<le> length s" for s
    by (auto simp: lex_exp_def length_dropWhile_le le_SucI split: list.splits)
  have uns: "length r < length s" if "lex_unsigned s = Some (v, r)" for s v r
  proof -
    have "lex_int s \<noteq> None"
      using that by (auto simp: lex_unsigned_def split: option.splits)
    then obtain i s2 where i: "lex_int s = Some (i, s2)"
      by auto
    have r: "r = snd (lex_exp (snd (lex_frac s2)))"
      using that i by (auto simp: lex_unsigned_def split: prod.splits)
    have "length r \<le> length s2"
      unfolding r using exp [of "snd (lex_frac s2)"] frac [of s2] by linarith
    then show ?thesis using int [OF i] by linarith
  qed
  have num: "length r < Suc (length cs)" if "lex_number (c # cs) = Some (v, r)" for c cs v r
  proof (cases "c = 0x2D")
    case True
    then have "lex_unsigned cs \<noteq> None"
      using that by (auto simp: lex_number_def split: option.splits)
    then obtain n r' where n: "lex_unsigned cs = Some (n, r')"
      by auto
    then have "r' = r"
      using that True by (simp add: lex_number_def)
    then have "lex_unsigned cs = Some (n, r)"
      using n by simp
    then show ?thesis using uns by fastforce
  next
    case False
    then have "lex_unsigned (c # cs) = Some (v, r)"
      using that by (simp add: lex_number_def)
    then show ?thesis using uns by fastforce
  qed
  show ?thesis
    by (relation "measure length")
      (auto dest!: str pre num simp: less_Suc_eq_le)
qed

declare lex.simps [simp del]

subsection \<open>Reading: values\<close>

text \<open>
  The grammar of JSON values over the tokens, read by a machine with a stack of the
  arrays and objects that are still open. An array frame holds its elements so far, an
  object frame its members so far and the key whose value is awaited (both lists newest
  first). The members of an object are kept in the order of the text; a key written
  twice has the value written last (\<open>obj_get\<close>).
\<close>

datatype frame =
    In_arr "json list"
  | In_obj "(js_string \<times> json) list" "js_string option"

datatype awaiting =
    Want_value
  | Want_value_or_close
  | Want_key
  | Want_key_or_close
  | Want_colon
  | Want_sep
  | Finished json

type_synonym parser = "awaiting \<times> frame list"

fun deliver :: "json \<Rightarrow> frame list \<Rightarrow> parser option" where
  "deliver v [] = Some (Finished v, [])"
| "deliver v (In_arr es # K) = Some (Want_sep, In_arr (v # es) # K)"
| "deliver v (In_obj ms (Some k) # K) = Some (Want_sep, In_obj ((k, v) # ms) None # K)"
| "deliver v (In_obj ms None # K) = None"

definition wants_value :: "awaiting \<Rightarrow> bool" where
  "wants_value e \<longleftrightarrow> e = Want_value \<or> e = Want_value_or_close"

fun feed :: "token \<Rightarrow> parser \<Rightarrow> parser option" where
  "feed T_lbrack (e, K) =
     (if wants_value e then Some (Want_value_or_close, In_arr [] # K) else None)"
| "feed T_lbrace (e, K) =
     (if wants_value e then Some (Want_key_or_close, In_obj [] None # K) else None)"
| "feed T_rbrack (e, K) =
     (case K of
        In_arr es # K' \<Rightarrow>
          if e = Want_sep \<or> e = Want_value_or_close then deliver (JArr (rev es)) K' else None
      | _ \<Rightarrow> None)"
| "feed T_rbrace (e, K) =
     (case K of
        In_obj ms None # K' \<Rightarrow>
          if e = Want_sep \<or> e = Want_key_or_close then deliver (JObj (rev ms)) K' else None
      | _ \<Rightarrow> None)"
| "feed T_comma (e, K) =
     (if e = Want_sep then
        (case K of
           In_arr es # K' \<Rightarrow> Some (Want_value, K)
         | In_obj ms None # K' \<Rightarrow> Some (Want_key, K)
         | _ \<Rightarrow> None)
      else None)"
| "feed T_colon (e, K) = (if e = Want_colon then Some (Want_value, K) else None)"
| "feed (T_string s) (e, K) =
     (if wants_value e then deliver (JStr s) K
      else if e = Want_key \<or> e = Want_key_or_close then
        (case K of
           In_obj ms None # K' \<Rightarrow> Some (Want_colon, In_obj ms (Some s) # K')
         | _ \<Rightarrow> None)
      else None)"
| "feed (T_number n) (e, K) = (if wants_value e then deliver (JNum n) K else None)"
| "feed T_true (e, K) = (if wants_value e then deliver (JBool True) K else None)"
| "feed T_false (e, K) = (if wants_value e then deliver (JBool False) K else None)"
| "feed T_null (e, K) = (if wants_value e then deliver JNull K else None)"

fun feed_all :: "token list \<Rightarrow> parser option \<Rightarrow> parser option" where
  "feed_all ts None = None"
| "feed_all [] (Some p) = Some p"
| "feed_all (t # ts) (Some p) = feed_all ts (feed t p)"

definition parse_tokens :: "token list \<Rightarrow> json option" where
  "parse_tokens ts =
     (case feed_all ts (Some (Want_value, [])) of
        Some (Finished v, K) \<Rightarrow> Some v
      | _ \<Rightarrow> None)"

text \<open>\<open>JSON.parse\<close>: the value of a text, or \<open>None\<close> where it throws a SyntaxError.\<close>

definition JSON_parse :: "js_string \<Rightarrow> json option" where
  "JSON_parse s = (case lex s of None \<Rightarrow> None | Some ts \<Rightarrow> parse_tokens ts)"

definition obj_get :: "js_string \<Rightarrow> (js_string \<times> json) list \<Rightarrow> json option" where
  "obj_get k ms = map_of (rev ms) k"

section \<open>Loading and saving\<close>

text \<open>
  The save effect writes \<open>JSON.stringify(tasks)\<close> under the key \<open>tasks\<close> after every
  change of the task list.
\<close>

definition save :: "app_state \<Rightarrow> js_string" where
  "save st = JSON_stringify (tasks st)"

datatype js_error = SyntaxError | TypeError

text \<open>
  What \<open>new Date(value)\<close> does with a value that is neither absent, \<open>null\<close>, a boolean
  nor a string, and what \<open>Date.parse\<close> does with a string outside the time value format,
  is the platform's business: a number would need floating point, an array or an object
  is converted through its \<open>toString\<close>. These three functions are parameters of the model.
\<close>

record platform =
  legacy_date_parse :: "js_string \<Rightarrow> js_date"
  date_of_number :: "js_string \<Rightarrow> js_date"
  date_of_object :: "json \<Rightarrow> js_error + js_date"

text \<open>
  \<open>new Date(task.createdAt)\<close>, where \<open>None\<close> is \<open>undefined\<close> (the property is absent):
  \<open>undefined\<close> gives an invalid date, \<open>null\<close> and \<open>false\<close> the time value 0,
  \<open>true\<close> the time value 1, and a string what \<open>Date.parse\<close> gives.
\<close>

fun new_Date :: "platform \<Rightarrow> json option \<Rightarrow> js_error + js_date" where
  "new_Date pf None = Inr Invalid_Date"
| "new_Date pf (Some JNull) = Inr (Time_Value 0)"
| "new_Date pf (Some (JBool b)) = Inr (Time_Value (if b then 1 else 0))"
| "new_Date pf (Some (JStr s)) = Inr (Date_parse (legacy_date_parse pf) s)"
| "new_Date pf (Some (JNum n)) = Inr (date_of_number pf n)"
| "new_Date pf (Some (JArr xs)) = date_of_object pf (JArr xs)"
| "new_Date pf (Some (JObj ms)) = date_of_object pf (JObj ms)"

text \<open>
  The object the \<open>map\<close> callback of the mount effect builds from one parsed element,
  \<open>{...task, createdAt: new Date(task.createdAt)}\<close>: the properties spread from the
  element, and the date that replaces its \<open>createdAt\<close>.
\<close>

record loaded =
  l_spread :: "(js_string \<times> json) list"
  l_createdAt :: js_date

definition indexed :: "json list \<Rightarrow> (js_string \<times> json) list" where
  "indexed xs = map (\<lambda>i. (Number_toString (int i), xs ! i)) [0 ..< length xs]"

text \<open>
  Reading \<open>createdAt\<close> of \<open>null\<close> throws a TypeError. A boolean and a number spread
  no property, a string and an array spread their indices, and none of them has a
  \<open>createdAt\<close>.
\<close>

fun revive :: "platform \<Rightarrow> json \<Rightarrow> js_error + loaded" where
  "revive pf JNull = Inl TypeError"
| "revive pf (JBool b) = Inr \<lparr>l_spread = [], l_createdAt = Invalid_Date\<rparr>"
| "revive pf (JNum n) = Inr \<lparr>l_spread = [], l_createdAt = Invalid_Date\<rparr>"
| "revive pf (JStr s) =
     Inr \<lparr>l_spread = indexed (map (\<lambda>c. JStr [c]) s), l_createdAt = Invalid_Date\<rparr>"
| "revive pf (JArr xs) = Inr \<lparr>l_spread = indexed xs, l_createdAt = Invalid_Date\<rparr>"
| "revive pf (JObj ms) =
     (case new_Date pf (obj_get (lit ''createdAt'') ms) of
        Inl e \<Rightarrow> Inl e
      | Inr d \<Rightarrow> Inr \<lparr>l_spread = ms, l_createdAt = d\<rparr>)"

text \<open>\<open>Array.prototype.map\<close> with a callback that may throw: the first throw ends it.\<close>

fun revive_all :: "platform \<Rightarrow> json list \<Rightarrow> js_error + loaded list" where
  "revive_all pf [] = Inr []"
| "revive_all pf (x # xs) =
     (case revive pf x of
        Inl e \<Rightarrow> Inl e
      | Inr t \<Rightarrow> (case revive_all pf xs of Inl e \<Rightarrow> Inl e | Inr ts \<Rightarrow> Inr (t # ts)))"

text \<open>
  The mount effect. Its argument is what \<open>localStorage.getItem('tasks')\<close> returned
  (\<open>None\<close> for \<open>null\<close>); its result is the list the task state holds afterwards and what
  was passed to \<open>console.error\<close>. The state is the empty list of \<open>useState\<close> unless
  \<open>setTasks\<close> is reached. The empty string is falsy, so it is not parsed. A value that
  parses but is not an array has no \<open>map\<close> method: the call throws a TypeError.
\<close>

definition load :: "platform \<Rightarrow> js_string option \<Rightarrow> loaded list \<times> js_error list" where
  "load pf savedTasks =
     (case savedTasks of
        None \<Rightarrow> ([], [])
      | Some s \<Rightarrow>
          if s = [] then ([], [])
          else
            (case JSON_parse s of
               None \<Rightarrow> ([], [SyntaxError])
             | Some (JArr xs) \<Rightarrow>
                 (case revive_all pf xs of
                    Inl e \<Rightarrow> ([], [e])
                  | Inr ts \<Rightarrow> (ts, []))
             | Some _ \<Rightarrow> ([], [TypeError])))"

text \<open>
  The loaded objects are put into a state of type \<open>Task[]\<close> unchecked. \<open>as_task\<close> is
  the task an object is when it has the shape of one, a string \<open>id\<close>, a string \<open>text\<close>
  and a boolean \<open>completed\<close>, and no other property besides \<open>createdAt\<close>.
\<close>

definition as_task :: "loaded \<Rightarrow> task option" where
  "as_task l =
     (case (obj_get (lit ''id'') (l_spread l), obj_get (lit ''text'') (l_spread l),
            obj_get (lit ''completed'') (l_spread l)) of
        (Some (JStr i), Some (JStr t), Some (JBool c)) \<Rightarrow>
          if set (map fst (l_spread l)) \<subseteq>
               {lit ''id'', lit ''text'', lit ''completed'', lit ''createdAt''}
          then Some \<lparr>task_id = i, task_text = t, completed = c, createdAt = l_createdAt l\<rparr>
          else None
      | _ \<Rightarrow> None)"

fun as_tasks :: "loaded list \<Rightarrow> task list option" where
  "as_tasks [] = Some []"
| "as_tasks (l # ls) =
     (case as_task l of
        None \<Rightarrow> None
      | Some t \<Rightarrow> (case as_tasks ls of None \<Rightarrow> None | Some ts \<Rightarrow> Some (t # ts)))"

text \<open>
  The component after mounting, when every loaded object is a task: the initial state
  with the loaded task list.
\<close>

definition mount :: "platform \<Rightarrow> js_string option \<Rightarrow> app_state option" where
  "mount pf savedTasks =
     (case as_tasks (fst (load pf savedTasks)) of
        None \<Rightarrow> None
      | Some ts \<Rightarrow> Some (initial\<lparr>tasks := ts\<rparr>))"

text \<open>
  A platform for examples: whatever is left to the platform gives an invalid date.
\<close>

definition strict_platform :: platform where
  "strict_platform =
     \<lparr>legacy_date_parse = (\<lambda>s. Invalid_Date), date_of_number = (\<lambda>n. Invalid_Date),
      date_of_object = (\<lambda>v. Inr Invalid_Date)\<rparr>"

subsection \<open>The tokens and the value of a saved task\<close>

definition date_token :: "js_date \<Rightarrow> token" where
  "date_token d = (case d of Invalid_Date \<Rightarrow> T_null | Time_Value t \<Rightarrow> T_string (toISOString t))"

definition task_tokens :: "task \<Rightarrow> token list" where
  "task_tokens t =
     [T_lbrace, T_string (lit ''id''), T_colon, T_string (task_id t), T_comma,
      T_string (lit ''text''), T_colon, T_string (task_text t), T_comma,
      T_string (lit ''completed''), T_colon, (if completed t then T_true else T_false), T_comma,
      T_string (lit ''createdAt''), T_colon, date_token (createdAt t), T_rbrace]"

definition date_json :: "js_date \<Rightarrow> json" where
  "date_json d = (case d of Invalid_Date \<Rightarrow> JNull | Time_Value t \<Rightarrow> JStr (toISOString t))"

definition task_json :: "task \<Rightarrow> json" where
  "task_json t =
     JObj [(lit ''id'', JStr (task_id t)), (lit ''text'', JStr (task_text t)),
           (lit ''completed'', JBool (completed t)), (lit ''createdAt'', date_json (createdAt t))]"

text \<open>
  What a stored date is after saving and loading: a time value keeps its value, an
  invalid date is written as \<open>null\<close> and read as the time value 0.
\<close>

definition reloaded :: "task \<Rightarrow> task" where
  "reloaded t =
     t\<lparr>createdAt := (case createdAt t of Invalid_Date \<Rightarrow> Time_Value 0 | Time_Value v \<Rightarrow> Time_Value v)\<rparr>"

definition valid_date :: "js_date \<Rightarrow> bool" where
  "valid_date d = (case d of Invalid_Date \<Rightarrow> False | Time_Value t \<Rightarrow> \<bar>t\<bar> \<le> 8640000000000000)"

definition cons_tokens :: "token list \<Rightarrow> token list option \<Rightarrow> token list option" where
  "cons_tokens ts r = (case r of None \<Rightarrow> None | Some us \<Rightarrow> Some (ts @ us))"

fun sep_tokens :: "token list list \<Rightarrow> token list" where
  "sep_tokens [] = []"
| "sep_tokens [x] = x"
| "sep_tokens (x # y # ys) = x @ T_comma # sep_tokens (y # ys)"

definition loaded_task :: "task \<Rightarrow> loaded" where
  "loaded_task t =
     \<lparr>l_spread = [(lit ''id'', JStr (task_id t)), (lit ''text'', JStr (task_text t)),
                (lit ''completed'', JBool (completed t)),
                (lit ''createdAt'', date_json (createdAt t))],
      l_createdAt = createdAt (reloaded t)\<rparr>"

section \<open>Properties of the command handlers\<close>

subsection \<open>Trimming\<close>

text \<open>
  Trimming is idempotent: what \<open>trim\<close> returns has no white space left at either end.
\<close>

lemma dropWhile_trailing_keeps_head:
  assumes "a = [] \<or> \<not> P (hd a)"
  shows "dropWhile P (rev (dropWhile P (rev a))) = rev (dropWhile P (rev a))"
proof -
  let ?b = "rev (dropWhile P (rev a))"
  have split: "a = ?b @ rev (takeWhile P (rev a))"
  proof -
    have "?b @ rev (takeWhile P (rev a)) = rev (takeWhile P (rev a) @ dropWhile P (rev a))"
      by (simp only: rev_append)
    also have "\<dots> = rev (rev a)"
      by (simp only: takeWhile_dropWhile_id)
    finally show ?thesis by simp
  qed
  show ?thesis
  proof (cases "?b = []")
    case True
    show ?thesis unfolding True by simp
  next
    case False
    then have "hd a = hd ?b" using split by (metis hd_append2)
    moreover have "a \<noteq> []" using False split by auto
    ultimately have "\<not> P (hd ?b)" using assms by auto
    then show ?thesis by (simp add: dropWhile_eq_self_iff)
  qed
qed

lemma dropWhile_head: "dropWhile P s = [] \<or> \<not> P (hd (dropWhile P s))"
  by (metis hd_dropWhile)

lemma trim_idem: "trim (trim s) = trim s"
  unfolding trim_def
  by (simp add: dropWhile_trailing_keeps_head [OF dropWhile_head])

lemmas eval_defs = run_def initial_def setNewTask_def addTask_def toggleTaskCompletion_def
  deleteTask_def filteredTasks_def trim_def lit_def is_trim_space_def Number_toString_def
  dec_digits.simps digit_def

lemma scenario:
  "run [Type_input (lit ''A''), Submit 1 1, Type_input (lit ''B''), Submit 2 2, Toggle (lit ''1'')] =
     \<lparr>tasks = [\<lparr>task_id = lit ''1'', task_text = lit ''A'', completed = True,
                 createdAt = Time_Value 1\<rparr>,
               \<lparr>task_id = lit ''2'', task_text = lit ''B'', completed = False,
                 createdAt = Time_Value 2\<rparr>],
      newTask = [], filter_sel = Filter_all, isFilterMenuOpen = False\<rparr>"
  by (simp add: eval_defs)

subsection \<open>Adding a task\<close>

text \<open>
  What \<open>addTask\<close> does when the trimmed input is not empty: it appends exactly one task
  to the end of the list. Its text is the trimmed input, its \<open>completed\<close> flag is
  false, its id is the decimal string of the \<open>Date.now()\<close> reading and its
  \<open>createdAt\<close> is the \<open>new Date()\<close> reading. The tasks stored before are unchanged
  and keep their order; the input field is cleared and the filter controls are untouched.
\<close>

theorem addTask_appends:
  "trim (newTask st) \<noteq> [] \<Longrightarrow>
   tasks (addTask now created st) =
     tasks st @ [\<lparr>task_id = Number_toString now, task_text = trim (newTask st),
                  completed = False, createdAt = Time_Value created\<rparr>] \<and>
   newTask (addTask now created st) = [] \<and>
   filter_sel (addTask now created st) = filter_sel st \<and>
   isFilterMenuOpen (addTask now created st) = isFilterMenuOpen st"
  by (simp add: addTask_def)

text \<open>
  The example of the specification: submitting \<open>"  buy milk  "\<close> stores the text
  \<open>"buy milk"\<close>.
\<close>

theorem addTask_appends_witness:
  "trim (newTask (setNewTask (lit ''  buy milk  '') initial)) \<noteq> [] \<and>
   tasks (addTask 1000 1001 (setNewTask (lit ''  buy milk  '') initial)) =
     [\<lparr>task_id = lit ''1000'', task_text = lit ''buy milk'',
       completed = False, createdAt = Time_Value 1001\<rparr>]"
proof -
  have t: "trim (newTask (setNewTask (lit ''  buy milk  '') initial)) = lit ''buy milk''"
    by (simp add: setNewTask_def trim_def lit_def is_trim_space_def)
  have n: "Number_toString 1000 = lit ''1000''"
    by (simp add: Number_toString_def dec_digits.simps digit_def lit_def)
  have i: "tasks (setNewTask (lit ''  buy milk  '') initial) = []"
    by (simp add: setNewTask_def initial_def)
  have ne: "lit ''buy milk'' \<noteq> []"
    by (simp add: lit_def)
  show ?thesis
    using addTask_appends [of "setNewTask (lit ''  buy milk  '') initial" 1000 1001] t n i ne
    by simp
qed

text \<open>
  Claim C2 asks that the task \<open>addTask\<close> appends has an id distinct from all stored
  ids. After a task was added at the \<open>Date.now()\<close> reading 1000, a submission of
  \<open>"  buy milk  "\<close> at the same reading appends one task with the text
  \<open>"buy milk"\<close> and the flag false and leaves the stored task as it was, but the new
  task has the id \<open>"1000"\<close> of the stored one.
\<close>

theorem addTask_reuses_id:
  "tasks (run [Type_input (lit ''a''), Submit 1000 1000, Type_input (lit ''  buy milk  '')]) =
     [\<lparr>task_id = lit ''1000'', task_text = lit ''a'', completed = False,
       createdAt = Time_Value 1000\<rparr>] \<and>
   tasks (run [Type_input (lit ''a''), Submit 1000 1000, Type_input (lit ''  buy milk  ''),
               Submit 1000 1001]) =
     [\<lparr>task_id = lit ''1000'', task_text = lit ''a'', completed = False,
       createdAt = Time_Value 1000\<rparr>,
      \<lparr>task_id = lit ''1000'', task_text = lit ''buy milk'', completed = False,
       createdAt = Time_Value 1001\<rparr>] \<and>
   task_id (last (tasks (run [Type_input (lit ''a''), Submit 1000 1000,
                              Type_input (lit ''  buy milk  ''), Submit 1000 1001]))) \<in>
     task_id ` set (tasks (run [Type_input (lit ''a''), Submit 1000 1000,
                                Type_input (lit ''  buy milk  '')]))"
  by (simp add: eval_defs)

text \<open>
  Claim C1 asks for pairwise distinct ids in every reachable store. Two submissions
  with the same \<open>Date.now()\<close> reading, starting from the empty store, leave two tasks
  with the same id.
\<close>

theorem same_clock_reading_duplicates_id:
  "\<not> distinct (map task_id (tasks (run
      [Type_input (lit ''a''), Submit 1000 1000, Type_input (lit ''b''), Submit 1000 1000])))"
  by (simp add: run_def initial_def setNewTask_def addTask_def trim_def lit_def
      is_trim_space_def)

subsection \<open>Clock readings and ids\<close>

text \<open>
  The decimal string of a clock reading determines the reading, so two tasks share an
  id only when their submissions read the same \<open>Date.now()\<close>: in a session whose
  submissions have pairwise distinct readings, the ids of the stored tasks are pairwise
  distinct, and each is the string of one of the readings.
\<close>

lemma unat_digit: "k < 10 \<Longrightarrow> unat (digit k) = 48 + k"
proof -
  assume k: "k < 10"
  have "unat (of_nat (48 + k) :: 16 word) = (48 + k) mod 2 ^ LENGTH(16)"
    by (rule unat_of_nat)
  also have "\<dots> = 48 + k" using k by simp
  finally show ?thesis unfolding digit_def .
qed

lemma digit_inject: "j < 10 \<Longrightarrow> k < 10 \<Longrightarrow> digit j = digit k \<Longrightarrow> j = k"
proof -
  assume j: "j < 10" and k: "k < 10" and e: "digit j = digit k"
  have "unat (digit j) = unat (digit k)" by (simp only: e)
  then have "48 + j = 48 + k" by (simp only: unat_digit [OF j] unat_digit [OF k])
  then show ?thesis by simp
qed

lemma digit_not_minus: "k < 10 \<Longrightarrow> digit k \<noteq> 0x2D"
proof
  assume k: "k < 10" and e: "digit k = 0x2D"
  have "unat (digit k) = unat (0x2D :: 16 word)" by (simp only: e)
  then show False by (simp add: unat_digit [OF k])
qed

lemma dec_digits_head: "\<exists>k cs. k < 10 \<and> dec_digits n = digit k # cs"
proof (induction n rule: dec_digits.induct)
  case (1 n)
  show ?case
  proof (cases "n < 10")
    case True
    then have "n < 10 \<and> dec_digits n = digit n # []" by (simp add: dec_digits.simps [of n])
    then show ?thesis by blast
  next
    case False
    then obtain k cs where "k < 10" "dec_digits (n div 10) = digit k # cs"
      using 1 by blast
    then have "k < 10 \<and> dec_digits n = digit k # (cs @ [digit (n mod 10)])"
      using False by (simp add: dec_digits.simps [of n])
    then show ?thesis by blast
  qed
qed

lemma dec_digits_inject: "dec_digits n = dec_digits m \<Longrightarrow> n = m"
proof (induction n arbitrary: m rule: dec_digits.induct)
  case (1 n)
  obtain k cs where h: "dec_digits (m div 10) = digit k # cs"
    using dec_digits_head [of "m div 10"] by blast
  obtain k' cs' where h': "dec_digits (n div 10) = digit k' # cs'"
    using dec_digits_head [of "n div 10"] by blast
  show ?case
  proof (cases "n < 10")
    case True
    then have n: "dec_digits n = [digit n]" by (simp add: dec_digits.simps [of n])
    show ?thesis
    proof (cases "m < 10")
      case m: True
      then have "dec_digits m = [digit m]" by (simp add: dec_digits.simps [of m])
      then have "digit n = digit m" using n 1(2) by simp
      then show ?thesis by (rule digit_inject [OF True m])
    next
      case False
      then have "dec_digits m = digit k # cs @ [digit (m mod 10)]"
        using h by (simp add: dec_digits.simps [of m])
      then show ?thesis using n 1(2) by simp
    qed
  next
    case False
    then have n: "dec_digits n = dec_digits (n div 10) @ [digit (n mod 10)]"
      by (simp add: dec_digits.simps [of n])
    show ?thesis
    proof (cases "m < 10")
      case True
      then have "dec_digits m = [digit m]" by (simp add: dec_digits.simps [of m])
      then show ?thesis using n h' 1(2) by simp
    next
      case m: False
      then have "dec_digits m = dec_digits (m div 10) @ [digit (m mod 10)]"
        by (simp add: dec_digits.simps [of m])
      then have eq: "dec_digits (n div 10) = dec_digits (m div 10)"
        "digit (n mod 10) = digit (m mod 10)"
        using n 1(2) by simp_all
      have "n div 10 = m div 10" using 1(1) [OF False eq(1)] .
      moreover have "n mod 10 = m mod 10"
        using digit_inject [OF _ _ eq(2)] by simp
      ultimately show ?thesis by (metis div_mult_mod_eq)
    qed
  qed
qed

lemma Number_toString_inject: "Number_toString a = Number_toString b \<Longrightarrow> a = b"
proof -
  assume e: "Number_toString a = Number_toString b"
  obtain k cs where ha: "k < 10" "dec_digits (nat a) = digit k # cs"
    using dec_digits_head by blast
  obtain k' cs' where hb: "k' < 10" "dec_digits (nat b) = digit k' # cs'"
    using dec_digits_head by blast
  show ?thesis
  proof (cases "a < 0")
    case True
    show ?thesis
    proof (cases "b < 0")
      case b: True
      then have "dec_digits (nat (- a)) = dec_digits (nat (- b))"
        using e True by (simp add: Number_toString_def)
      then have "nat (- a) = nat (- b)" by (rule dec_digits_inject)
      then show ?thesis using True b by simp
    next
      case False
      then have "0x2D = digit k'"
        using e True hb by (simp add: Number_toString_def)
      then show ?thesis using digit_not_minus [OF hb(1)] by simp
    qed
  next
    case False
    show ?thesis
    proof (cases "b < 0")
      case True
      then have "digit k = 0x2D"
        using e False ha by (simp add: Number_toString_def)
      then show ?thesis using digit_not_minus [OF ha(1)] by simp
    next
      case b: False
      then have "dec_digits (nat a) = dec_digits (nat b)"
        using e False by (simp add: Number_toString_def)
      then have "nat a = nat b" by (rule dec_digits_inject)
      then show ?thesis using False b by simp
    qed
  qed
qed

lemma submit_readings_snoc:
  "submit_readings (es @ [e]) = submit_readings es @ submit_readings [e]"
  by (induction es rule: submit_readings.induct) simp_all

lemma run_snoc: "run (es @ [e]) = step (run es) e"
  by (simp add: run_def)

lemma ids_from_readings:
  "distinct (submit_readings es) \<Longrightarrow>
   distinct (map task_id (tasks (run es))) \<and>
   task_id ` set (tasks (run es)) \<subseteq> Number_toString ` set (submit_readings es)"
proof (induction es rule: rev_induct)
  case Nil
  then show ?case by (simp add: run_def initial_def)
next
  case (snoc e es)
  have d: "distinct (submit_readings es)"
    using snoc.prems by (simp add: submit_readings_snoc)
  note ih = snoc.IH [OF d]
  let ?ids = "task_id ` set (tasks (run es))"
  show ?case
  proof (cases e)
    case (Type_input s)
    then show ?thesis
      using ih by (simp add: run_snoc submit_readings_snoc setNewTask_def)
  next
    case (Submit now created)
    have fresh: "now \<notin> set (submit_readings es)"
      using snoc.prems Submit by (simp add: submit_readings_snoc)
    have "Number_toString now \<notin> ?ids"
    proof
      assume "Number_toString now \<in> ?ids"
      then obtain r where "r \<in> set (submit_readings es)" "Number_toString now = Number_toString r"
        using ih by blast
      then show False using fresh Number_toString_inject by blast
    qed
    then show ?thesis
      using ih Submit by (auto simp: run_snoc submit_readings_snoc addTask_def)
  next
    case (Toggle i)
    have "map task_id (tasks (toggleTaskCompletion i (run es))) = map task_id (tasks (run es))"
      by (simp add: toggleTaskCompletion_def)
    then have "distinct (map task_id (tasks (toggleTaskCompletion i (run es)))) \<and>
        task_id ` set (tasks (toggleTaskCompletion i (run es))) = ?ids"
      using ih by (metis list.set_map)
    then show ?thesis
      using ih Toggle by (simp add: run_snoc submit_readings_snoc)
  next
    case (Delete i)
    then show ?thesis
      using ih by (auto simp: run_snoc submit_readings_snoc deleteTask_def distinct_map_filter)
  next
    case (Ui u)
    have "tasks (step (run es) (Ui u)) = tasks (run es)"
      by (cases u) (auto split: option.splits if_splits)
    then show ?thesis
      using ih Ui by (simp add: run_snoc submit_readings_snoc)
  qed
qed

subsection \<open>Blank input\<close>

lemma ui_step_tasks: "ui_step e st = Some st' \<Longrightarrow> tasks st' = tasks st"
  by (cases e) (auto split: if_splits)

lemma step_texts_trimmed:
  assumes "texts_trimmed (tasks st)"
  shows "texts_trimmed (tasks (step st ev))"
proof (cases ev)
  case (Type_input s)
  then show ?thesis using assms by (simp add: setNewTask_def)
next
  case (Submit now created)
  then show ?thesis using assms
    by (simp add: addTask_def texts_trimmed_def trim_idem)
next
  case (Toggle i)
  then show ?thesis using assms
    by (auto simp: toggleTaskCompletion_def texts_trimmed_def list_all_iff)
next
  case (Delete i)
  then show ?thesis using assms
    by (simp add: deleteTask_def texts_trimmed_def list_all_iff)
next
  case (Ui e)
  then show ?thesis using assms
    by (auto split: option.splits dest: ui_step_tasks)
qed

lemma foldl_step_texts_trimmed:
  "texts_trimmed (tasks st) \<Longrightarrow> texts_trimmed (tasks (foldl step st es))"
  by (induction es arbitrary: st) (simp_all add: step_texts_trimmed)

lemma run_texts_trimmed: "texts_trimmed (tasks (run es))"
  unfolding run_def
  by (rule foldl_step_texts_trimmed) (simp add: initial_def texts_trimmed_def)

text \<open>
  Claim C5: when the input is empty or white space only, \<open>addTask\<close> returns the state
  it was given (task list, input field and filter controls), and it has no error outcome;
  typing such an input and submitting it changes nothing but the input field. As a
  consequence, in every state reached from the initial one by any sequence of events, no
  stored task has an empty or white-space-only text.
\<close>

theorem blank_add_is_noop:
  "(trim (newTask st) = [] \<longrightarrow> addTask now created st = st) \<and>
   (trim s = [] \<longrightarrow> step (step st (Type_input s)) (Submit now created) = setNewTask s st) \<and>
   (\<forall>t \<in> set (tasks (run es)). task_text t \<noteq> [] \<and> trim (task_text t) \<noteq> [])"
proof -
  have a: "trim (newTask st) = [] \<longrightarrow> addTask now created st = st"
    by (simp add: addTask_def)
  have b: "trim s = [] \<longrightarrow> step (step st (Type_input s)) (Submit now created) = setNewTask s st"
    by (simp add: addTask_def setNewTask_def)
  have c: "\<forall>t \<in> set (tasks (run es)). task_text t \<noteq> [] \<and> trim (task_text t) \<noteq> []"
    using run_texts_trimmed [of es] by (auto simp: texts_trimmed_def list_all_iff)
  from a b c show ?thesis by blast
qed

theorem blank_add_is_noop_witness:
  "trim (newTask (setNewTask (lit ''   '') initial)) = [] \<and>
   trim (newTask initial) = [] \<and>
   addTask 1000 1000 (setNewTask (lit ''   '') initial) = setNewTask (lit ''   '') initial \<and>
   addTask 1000 1000 initial = initial \<and>
   tasks (run [Type_input (lit '' a ''), Submit 5 5, Type_input (lit '' ''), Submit 6 6]) =
     [\<lparr>task_id = lit ''5'', task_text = lit ''a'', completed = False, createdAt = Time_Value 5\<rparr>] \<and>
   task_text (hd (tasks (run [Type_input (lit '' a ''), Submit 5 5, Type_input (lit '' ''), Submit 6 6]))) \<noteq> []"
proof -
  have r: "tasks (run [Type_input (lit '' a ''), Submit 5 5, Type_input (lit '' ''), Submit 6 6]) =
     [\<lparr>task_id = lit ''5'', task_text = lit ''a'', completed = False, createdAt = Time_Value 5\<rparr>]"
    by (simp add: run_def initial_def setNewTask_def addTask_def trim_def lit_def
        is_trim_space_def Number_toString_def dec_digits.simps digit_def)
  have t1: "trim (newTask (setNewTask (lit ''   '') initial)) = []"
    by (simp add: setNewTask_def trim_def lit_def is_trim_space_def)
  have t2: "trim (newTask initial) = []"
    by (simp add: initial_def trim_def)
  show ?thesis
    using blank_add_is_noop [of "setNewTask (lit ''   '') initial" 1000 1000 "lit '' ''"
        "[Type_input (lit '' a ''), Submit 5 5, Type_input (lit '' ''), Submit 6 6]"]
      blank_add_is_noop [of initial 1000 1000 "[]" "[]"] t1 t2 r
    by simp
qed

subsection \<open>Toggling\<close>

lemma toggle_tasks:
  "tasks (toggleTaskCompletion i st) =
     map (\<lambda>t. if task_id t = i then t\<lparr>completed := \<not> completed t\<rparr> else t) (tasks st)"
  by (simp add: toggleTaskCompletion_def)

lemma map_toggle_absent:
  "i \<notin> task_id ` set xs \<Longrightarrow>
   map (\<lambda>t. if task_id t = i then t\<lparr>completed := \<not> completed t\<rparr> else t) xs = xs"
  by (induction xs) auto

text \<open>
  Claim C3: \<open>toggleTaskCompletion i\<close> keeps the length of the list, the position and
  the id of every task; at every position, a task whose id is \<open>i\<close> has its
  \<open>completed\<close> flag negated once and its other fields kept, and a task with another id
  is unchanged. When exactly one task has the id \<open>i\<close>, that task alone changes. When no
  task has the id, the whole state is unchanged. The input field and the filter controls
  are never touched.
\<close>

theorem toggle_frame:
  "length (tasks (toggleTaskCompletion i st)) = length (tasks st) \<and>
   map task_id (tasks (toggleTaskCompletion i st)) = map task_id (tasks st) \<and>
   (\<forall>k < length (tasks st).
      tasks (toggleTaskCompletion i st) ! k =
        (if task_id (tasks st ! k) = i
         then (tasks st ! k)\<lparr>completed := \<not> completed (tasks st ! k)\<rparr>
         else tasks st ! k)) \<and>
   (\<forall>xs t ys. tasks st = xs @ t # ys \<and> task_id t = i \<and>
       i \<notin> task_id ` set xs \<and> i \<notin> task_id ` set ys \<longrightarrow>
       tasks (toggleTaskCompletion i st) = xs @ t\<lparr>completed := \<not> completed t\<rparr> # ys) \<and>
   (i \<notin> task_id ` set (tasks st) \<longrightarrow> toggleTaskCompletion i st = st) \<and>
   newTask (toggleTaskCompletion i st) = newTask st \<and>
   filter_sel (toggleTaskCompletion i st) = filter_sel st \<and>
   isFilterMenuOpen (toggleTaskCompletion i st) = isFilterMenuOpen st"
proof -
  have len: "length (tasks (toggleTaskCompletion i st)) = length (tasks st)"
    by (simp add: toggle_tasks)
  have ids: "map task_id (tasks (toggleTaskCompletion i st)) = map task_id (tasks st)"
    by (simp add: toggle_tasks)
  have nth: "\<forall>k < length (tasks st).
      tasks (toggleTaskCompletion i st) ! k =
        (if task_id (tasks st ! k) = i
         then (tasks st ! k)\<lparr>completed := \<not> completed (tasks st ! k)\<rparr>
         else tasks st ! k)"
    by (simp add: toggle_tasks)
  have one: "\<forall>xs t ys. tasks st = xs @ t # ys \<and> task_id t = i \<and>
       i \<notin> task_id ` set xs \<and> i \<notin> task_id ` set ys \<longrightarrow>
       tasks (toggleTaskCompletion i st) = xs @ t\<lparr>completed := \<not> completed t\<rparr> # ys"
    by (simp add: toggle_tasks map_toggle_absent)
  have absent: "i \<notin> task_id ` set (tasks st) \<longrightarrow> toggleTaskCompletion i st = st"
    by (simp add: toggleTaskCompletion_def map_toggle_absent)
  have rest: "newTask (toggleTaskCompletion i st) = newTask st \<and>
      filter_sel (toggleTaskCompletion i st) = filter_sel st \<and>
      isFilterMenuOpen (toggleTaskCompletion i st) = isFilterMenuOpen st"
    by (simp add: toggleTaskCompletion_def)
  from len ids nth one absent rest show ?thesis by blast
qed

theorem toggle_frame_witness:
  "tasks (toggleTaskCompletion (lit ''2'')
      (run [Type_input (lit ''A''), Submit 1 1, Type_input (lit ''B''), Submit 2 2,
            Toggle (lit ''1'')])) =
     [\<lparr>task_id = lit ''1'', task_text = lit ''A'', completed = True, createdAt = Time_Value 1\<rparr>,
      \<lparr>task_id = lit ''2'', task_text = lit ''B'', completed = True, createdAt = Time_Value 2\<rparr>] \<and>
   lit ''7'' \<notin> task_id ` set (tasks
      (run [Type_input (lit ''A''), Submit 1 1, Type_input (lit ''B''), Submit 2 2,
            Toggle (lit ''1'')])) \<and>
   toggleTaskCompletion (lit ''7'')
      (run [Type_input (lit ''A''), Submit 1 1, Type_input (lit ''B''), Submit 2 2,
            Toggle (lit ''1'')]) =
      run [Type_input (lit ''A''), Submit 1 1, Type_input (lit ''B''), Submit 2 2,
           Toggle (lit ''1'')]"
proof -
  let ?S = "run [Type_input (lit ''A''), Submit 1 1, Type_input (lit ''B''), Submit 2 2,
                 Toggle (lit ''1'')]"
  let ?a = "\<lparr>task_id = lit ''1'', task_text = lit ''A'', completed = True,
             createdAt = Time_Value 1\<rparr>"
  let ?b = "\<lparr>task_id = lit ''2'', task_text = lit ''B'', completed = False,
             createdAt = Time_Value 2\<rparr>"
  have shape: "tasks ?S = [?a] @ ?b # []"
    by (simp add: scenario)
  have ids: "task_id ?b = lit ''2'' \<and> lit ''2'' \<notin> task_id ` set [?a] \<and>
      lit ''2'' \<notin> task_id ` set ([] :: task list)"
    by (simp add: lit_def)
  have absent: "lit ''7'' \<notin> task_id ` set (tasks ?S)"
    unfolding scenario by (simp add: lit_def)
  have one: "tasks (toggleTaskCompletion (lit ''2'') ?S) = [?a] @ ?b\<lparr>completed := \<not> completed ?b\<rparr> # []"
    using toggle_frame [of "lit ''2''" ?S] shape ids by blast
  have noop: "toggleTaskCompletion (lit ''7'') ?S = ?S"
    using toggle_frame [of "lit ''7''" ?S] absent by blast
  from one noop absent show ?thesis by simp
qed

subsection \<open>Deleting\<close>

lemma filter_absent:
  "i \<notin> task_id ` set xs \<Longrightarrow> filter (\<lambda>t. task_id t \<noteq> i) xs = xs"
  by (induction xs) auto

lemma distinct_ids_remove_one:
  "distinct (map task_id xs) \<Longrightarrow> i \<in> task_id ` set xs \<Longrightarrow>
   Suc (length (filter (\<lambda>t. task_id t \<noteq> i) xs)) = length xs"
proof (induction xs)
  case Nil
  then show ?case by simp
next
  case (Cons x xs)
  show ?case
  proof (cases "task_id x = i")
    case True
    with Cons.prems have "i \<notin> task_id ` set xs" by auto
    then show ?thesis using True by (simp add: filter_absent)
  next
    case False
    with Cons show ?thesis by auto
  qed
qed

text \<open>
  What \<open>deleteTask i\<close> does on every task list: it keeps exactly the tasks whose id is
  not \<open>i\<close>, in their order. When exactly one task has the id \<open>i\<close>, that task alone is
  removed; with pairwise distinct ids and \<open>i\<close> present the list gets shorter by one. When
  no task has the id, the whole state is unchanged.
\<close>

theorem delete_removes:
  "tasks (deleteTask i st) = filter (\<lambda>t. task_id t \<noteq> i) (tasks st) \<and>
   subseq (tasks (deleteTask i st)) (tasks st) \<and>
   i \<notin> task_id ` set (tasks (deleteTask i st)) \<and>
   (\<forall>xs t ys. tasks st = xs @ t # ys \<and> task_id t = i \<and>
       i \<notin> task_id ` set xs \<and> i \<notin> task_id ` set ys \<longrightarrow>
       tasks (deleteTask i st) = xs @ ys) \<and>
   (distinct (map task_id (tasks st)) \<and> i \<in> task_id ` set (tasks st) \<longrightarrow>
       Suc (length (tasks (deleteTask i st))) = length (tasks st)) \<and>
   (i \<notin> task_id ` set (tasks st) \<longrightarrow> deleteTask i st = st) \<and>
   newTask (deleteTask i st) = newTask st \<and>
   filter_sel (deleteTask i st) = filter_sel st \<and>
   isFilterMenuOpen (deleteTask i st) = isFilterMenuOpen st"
proof -
  have eq: "tasks (deleteTask i st) = filter (\<lambda>t. task_id t \<noteq> i) (tasks st)"
    by (simp add: deleteTask_def)
  have sub: "subseq (tasks (deleteTask i st)) (tasks st)"
    by (simp add: eq)
  have gone: "i \<notin> task_id ` set (tasks (deleteTask i st))"
    by (auto simp: eq)
  have one: "\<forall>xs t ys. tasks st = xs @ t # ys \<and> task_id t = i \<and>
       i \<notin> task_id ` set xs \<and> i \<notin> task_id ` set ys \<longrightarrow>
       tasks (deleteTask i st) = xs @ ys"
    by (simp add: eq filter_absent)
  have cnt: "distinct (map task_id (tasks st)) \<and> i \<in> task_id ` set (tasks st) \<longrightarrow>
       Suc (length (tasks (deleteTask i st))) = length (tasks st)"
    using distinct_ids_remove_one [of "tasks st" i] by (simp add: eq)
  have absent: "i \<notin> task_id ` set (tasks st) \<longrightarrow> deleteTask i st = st"
    by (simp add: deleteTask_def filter_absent)
  have rest: "newTask (deleteTask i st) = newTask st \<and>
      filter_sel (deleteTask i st) = filter_sel st \<and>
      isFilterMenuOpen (deleteTask i st) = isFilterMenuOpen st"
    by (simp add: deleteTask_def)
  from eq sub gone one cnt absent rest show ?thesis by blast
qed

theorem delete_removes_witness:
  "distinct (map task_id (tasks
      (run [Type_input (lit ''A''), Submit 1 1, Type_input (lit ''B''), Submit 2 2,
            Toggle (lit ''1'')]))) \<and>
   tasks (deleteTask (lit ''1'')
      (run [Type_input (lit ''A''), Submit 1 1, Type_input (lit ''B''), Submit 2 2,
            Toggle (lit ''1'')])) =
     [\<lparr>task_id = lit ''2'', task_text = lit ''B'', completed = False, createdAt = Time_Value 2\<rparr>] \<and>
   lit ''7'' \<notin> task_id ` set (tasks
      (run [Type_input (lit ''A''), Submit 1 1, Type_input (lit ''B''), Submit 2 2,
            Toggle (lit ''1'')])) \<and>
   deleteTask (lit ''7'')
      (run [Type_input (lit ''A''), Submit 1 1, Type_input (lit ''B''), Submit 2 2,
            Toggle (lit ''1'')]) =
      run [Type_input (lit ''A''), Submit 1 1, Type_input (lit ''B''), Submit 2 2,
           Toggle (lit ''1'')]"
proof -
  let ?S = "run [Type_input (lit ''A''), Submit 1 1, Type_input (lit ''B''), Submit 2 2,
                 Toggle (lit ''1'')]"
  let ?a = "\<lparr>task_id = lit ''1'', task_text = lit ''A'', completed = True,
             createdAt = Time_Value 1\<rparr>"
  let ?b = "\<lparr>task_id = lit ''2'', task_text = lit ''B'', completed = False,
             createdAt = Time_Value 2\<rparr>"
  have shape: "tasks ?S = [] @ ?a # [?b]"
    by (simp add: scenario)
  have ids: "task_id ?a = lit ''1'' \<and> lit ''1'' \<notin> task_id ` set ([] :: task list) \<and>
      lit ''1'' \<notin> task_id ` set [?b]"
    by (simp add: lit_def)
  have dist: "distinct (map task_id (tasks ?S))"
    unfolding scenario by (simp add: lit_def)
  have absent: "lit ''7'' \<notin> task_id ` set (tasks ?S)"
    unfolding scenario by (simp add: lit_def)
  have one: "tasks (deleteTask (lit ''1'') ?S) = [] @ [?b]"
    using delete_removes [of "lit ''1''" ?S] shape ids by blast
  have noop: "deleteTask (lit ''7'') ?S = ?S"
    using delete_removes [of "lit ''7''" ?S] absent by blast
  from one noop absent dist show ?thesis by simp
qed

text \<open>
  Claim C4 asks that \<open>deleteTask\<close> removes exactly the one task whose id matches, for
  every task list. In the store that two submissions at the same \<open>Date.now()\<close> reading
  leave, both tasks have the id \<open>"1000"\<close>, and one click on a delete button removes
  both.
\<close>

theorem delete_removes_both:
  "tasks (run [Type_input (lit ''a''), Submit 1000 1000, Type_input (lit ''b''),
               Submit 1000 1000]) =
     [\<lparr>task_id = lit ''1000'', task_text = lit ''a'', completed = False,
       createdAt = Time_Value 1000\<rparr>,
      \<lparr>task_id = lit ''1000'', task_text = lit ''b'', completed = False,
       createdAt = Time_Value 1000\<rparr>] \<and>
   tasks (run [Type_input (lit ''a''), Submit 1000 1000, Type_input (lit ''b''),
               Submit 1000 1000, Delete (lit ''1000'')]) = []"
  by (simp add: eval_defs)

section \<open>Properties of the view filter and the counts\<close>

text \<open>
  Claim C6: the visible list under \<open>all\<close> is the task list itself; under
  \<open>active\<close> it is the tasks that are not completed and under \<open>completed\<close> the
  completed ones, each in the order of the task list. The active and the completed
  selections share no task and together hold exactly the tasks of the \<open>all\<close> selection.
  \<open>filteredTasks\<close> is a function of the state that returns a subsequence of its tasks:
  it changes neither a task nor the state.
\<close>

theorem filteredTasks_projection:
  "filteredTasks (st\<lparr>filter_sel := Filter_all\<rparr>) = tasks st \<and>
   filteredTasks (st\<lparr>filter_sel := Filter_active\<rparr>) = filter (\<lambda>t. \<not> completed t) (tasks st) \<and>
   filteredTasks (st\<lparr>filter_sel := Filter_completed\<rparr>) = filter completed (tasks st) \<and>
   set (filteredTasks (st\<lparr>filter_sel := Filter_active\<rparr>)) \<inter>
     set (filteredTasks (st\<lparr>filter_sel := Filter_completed\<rparr>)) = {} \<and>
   set (filteredTasks (st\<lparr>filter_sel := Filter_active\<rparr>)) \<union>
     set (filteredTasks (st\<lparr>filter_sel := Filter_completed\<rparr>)) =
     set (filteredTasks (st\<lparr>filter_sel := Filter_all\<rparr>)) \<and>
   subseq (filteredTasks st) (tasks st)"
proof -
  have a: "filteredTasks (st\<lparr>filter_sel := Filter_all\<rparr>) = tasks st"
    by (simp add: filteredTasks_def)
  have b: "filteredTasks (st\<lparr>filter_sel := Filter_active\<rparr>) =
      filter (\<lambda>t. \<not> completed t) (tasks st)"
    by (simp add: filteredTasks_def)
  have c: "filteredTasks (st\<lparr>filter_sel := Filter_completed\<rparr>) = filter completed (tasks st)"
    by (simp add: filteredTasks_def)
  have d: "set (filter (\<lambda>t. \<not> completed t) (tasks st)) \<inter> set (filter completed (tasks st)) = {}"
    by auto
  have e: "set (filter (\<lambda>t. \<not> completed t) (tasks st)) \<union> set (filter completed (tasks st)) =
      set (tasks st)"
    by auto
  have f: "subseq (filteredTasks st) (tasks st)"
    by (simp add: filteredTasks_def)
  show ?thesis
    unfolding a b c using d e f by simp
qed

theorem filteredTasks_projection_witness:
  "map task_text (filteredTasks
      ((run [Type_input (lit ''A''), Submit 1 1, Type_input (lit ''B''), Submit 2 2,
             Toggle (lit ''1'')])\<lparr>filter_sel := Filter_active\<rparr>)) = [lit ''B''] \<and>
   map task_text (filteredTasks
      ((run [Type_input (lit ''A''), Submit 1 1, Type_input (lit ''B''), Submit 2 2,
             Toggle (lit ''1'')])\<lparr>filter_sel := Filter_completed\<rparr>)) = [lit ''A''] \<and>
   map task_text (filteredTasks
      ((run [Type_input (lit ''A''), Submit 1 1, Type_input (lit ''B''), Submit 2 2,
             Toggle (lit ''1'')])\<lparr>filter_sel := Filter_all\<rparr>)) = [lit ''A'', lit ''B'']"
  using filteredTasks_projection
    [of "run [Type_input (lit ''A''), Submit 1 1, Type_input (lit ''B''), Submit 2 2,
              Toggle (lit ''1'')]"]
  by (simp add: scenario)

text \<open>
  Claim C10: the active and the completed count add up to the total count, which is the
  length of the unfiltered list; the completed count is the number of completed tasks and
  the active count the number of the others. No count depends on the selected filter or
  on the menu.
\<close>

theorem counts_identity:
  "activeTasks st + completedTasks st = totalTasks st \<and>
   totalTasks st = int (length (tasks st)) \<and>
   completedTasks st = int (length (filter completed (tasks st))) \<and>
   activeTasks st = int (length (filter (\<lambda>t. \<not> completed t) (tasks st))) \<and>
   totalTasks (st\<lparr>filter_sel := f, isFilterMenuOpen := b\<rparr>) = totalTasks st \<and>
   completedTasks (st\<lparr>filter_sel := f, isFilterMenuOpen := b\<rparr>) = completedTasks st \<and>
   activeTasks (st\<lparr>filter_sel := f, isFilterMenuOpen := b\<rparr>) = activeTasks st"
proof -
  have "length (filter completed (tasks st)) + length (filter (\<lambda>t. \<not> completed t) (tasks st)) =
      length (tasks st)"
    by (rule sum_length_filter_compl)
  then show ?thesis
    by (simp add: activeTasks_def totalTasks_def completedTasks_def)
qed

theorem counts_identity_witness:
  "totalTasks (run [Type_input (lit ''A''), Submit 1 1, Type_input (lit ''B''), Submit 2 2,
                    Toggle (lit ''1'')]) = 2 \<and>
   activeTasks (run [Type_input (lit ''A''), Submit 1 1, Type_input (lit ''B''), Submit 2 2,
                     Toggle (lit ''1'')]) = 1 \<and>
   completedTasks (run [Type_input (lit ''A''), Submit 1 1, Type_input (lit ''B''), Submit 2 2,
                        Toggle (lit ''1'')]) = 1"
  using counts_identity
    [of "run [Type_input (lit ''A''), Submit 1 1, Type_input (lit ''B''), Submit 2 2,
              Toggle (lit ''1'')]"]
  by (simp add: scenario)

section \<open>Properties of the filter selector\<close>

text \<open>
  Claim C9, as the code has it: initially the menu is closed and the filter is
  \<open>all\<close>. The header button negates the menu state (closed to open, open to closed).
  Each menu item exists only while the menu is open; it sets the filter to its value and
  closes the menu in one step. The "Show all tasks" button exists only while the visible
  list is empty and the filter is not \<open>all\<close>; it sets the filter to \<open>all\<close> and leaves
  the menu as it is. No filter control changes the task list or the input field.
\<close>

theorem ui_step_transitions:
  "filter_sel initial = Filter_all \<and> \<not> isFilterMenuOpen initial \<and>
   ui_step Click_filter_button st = Some (st\<lparr>isFilterMenuOpen := \<not> isFilterMenuOpen st\<rparr>) \<and>
   (isFilterMenuOpen st \<longrightarrow>
      ui_step (Click_menu_item f) st = Some (st\<lparr>filter_sel := f, isFilterMenuOpen := False\<rparr>)) \<and>
   (\<not> isFilterMenuOpen st \<longrightarrow> ui_step (Click_menu_item f) st = None) \<and>
   (filteredTasks st = [] \<and> filter_sel st \<noteq> Filter_all \<longrightarrow>
      ui_step Click_show_all st = Some (st\<lparr>filter_sel := Filter_all\<rparr>)) \<and>
   (\<not> (filteredTasks st = [] \<and> filter_sel st \<noteq> Filter_all) \<longrightarrow>
      ui_step Click_show_all st = None) \<and>
   (ui_step e st = Some st' \<longrightarrow> tasks st' = tasks st \<and> newTask st' = newTask st)"
  by (cases e) (auto simp: initial_def)

theorem ui_step_transitions_witness:
  "isFilterMenuOpen (run [Ui Click_filter_button]) \<and>
   ui_step (Click_menu_item Filter_active) (run [Ui Click_filter_button]) =
     Some \<lparr>tasks = [], newTask = [], filter_sel = Filter_active, isFilterMenuOpen = False\<rparr> \<and>
   \<not> isFilterMenuOpen initial \<and>
   ui_step (Click_menu_item Filter_active) initial = None \<and>
   filteredTasks (run [Ui Click_filter_button, Ui (Click_menu_item Filter_active)]) = [] \<and>
   ui_step Click_show_all (run [Ui Click_filter_button, Ui (Click_menu_item Filter_active)]) =
     Some initial \<and>
   ui_step Click_show_all initial = None"
proof -
  let ?open = "run [Ui Click_filter_button]"
  let ?act = "run [Ui Click_filter_button, Ui (Click_menu_item Filter_active)]"
  have r1: "?open = \<lparr>tasks = [], newTask = [], filter_sel = Filter_all, isFilterMenuOpen = True\<rparr>"
    by (simp add: run_def initial_def)
  have r2: "?act = \<lparr>tasks = [], newTask = [], filter_sel = Filter_active, isFilterMenuOpen = False\<rparr>"
    by (simp add: run_def initial_def)
  have o1: "isFilterMenuOpen ?open"
    by (simp add: r1)
  have c0: "\<not> isFilterMenuOpen initial"
    by (simp add: initial_def)
  have f2: "filteredTasks ?act = [] \<and> filter_sel ?act \<noteq> Filter_all"
    by (simp add: r2 filteredTasks_def)
  have n0: "\<not> (filteredTasks initial = [] \<and> filter_sel initial \<noteq> Filter_all)"
    by (simp add: initial_def)
  have a: "ui_step (Click_menu_item Filter_active) ?open =
      Some (?open\<lparr>filter_sel := Filter_active, isFilterMenuOpen := False\<rparr>)"
    using ui_step_transitions [of ?open Filter_active Click_filter_button] o1 by blast
  have b: "ui_step (Click_menu_item Filter_active) initial = None"
    using ui_step_transitions [of initial Filter_active Click_filter_button] c0 by blast
  have c: "ui_step Click_show_all ?act = Some (?act\<lparr>filter_sel := Filter_all\<rparr>)"
    using ui_step_transitions [of ?act Filter_active Click_filter_button] f2 by blast
  have d: "ui_step Click_show_all initial = None"
    using ui_step_transitions [of initial Filter_active Click_filter_button] n0 by blast
  have a': "?open\<lparr>filter_sel := Filter_active, isFilterMenuOpen := False\<rparr> =
      \<lparr>tasks = [], newTask = [], filter_sel = Filter_active, isFilterMenuOpen = False\<rparr>"
    by (simp add: r1)
  have c': "?act\<lparr>filter_sel := Filter_all\<rparr> = initial"
    by (simp add: r2 initial_def)
  from o1 a a' c0 b f2 c c' d show ?thesis by simp
qed

text \<open>
  Not every control that selects a filter closes the menu: after selecting
  \<open>active\<close> on an empty store and opening the menu again, "Show all tasks" selects
  \<open>all\<close> and the menu stays open.
\<close>

theorem show_all_leaves_menu_open:
  "run [Ui Click_filter_button, Ui (Click_menu_item Filter_active), Ui Click_filter_button,
        Ui Click_show_all] =
     \<lparr>tasks = [], newTask = [], filter_sel = Filter_all, isFilterMenuOpen = True\<rparr>"
  by (simp add: run_def initial_def filteredTasks_def)

section \<open>Properties of the time value format\<close>

lemma div_bounds:
  fixes x k :: int
  assumes "0 < k"
  shows "k * (x div k) \<le> x" and "x < k * (x div k) + k"
proof -
  have "x = k * (x div k) + x mod k" by simp
  moreover have "0 \<le> x mod k" "x mod k < k" using assms by simp_all
  ultimately show "k * (x div k) \<le> x" and "x < k * (x div k) + k" by linarith+
qed

lemma DayFromYear_lower:
  fixes d :: int
  defines "e \<equiv> 1970 + (400 * d) div 146097"
  shows "DayFromYear (e - 1) \<le> d"
proof -
  define q where "q = (400 * d) div 146097"
  define a where "a = q div 4"
  define b where "b = (q + 68) div 100"
  define c where "c = (q + 368) div 400"
  have q: "146097 * q \<le> 400 * d"
    unfolding q_def by (rule div_bounds(1)) simp
  have a: "4 * a \<le> q" unfolding a_def by (rule div_bounds(1)) simp
  have b: "q + 68 < 100 * b + 100" unfolding b_def by (rule div_bounds(2)) simp
  have c: "400 * c \<le> q + 368" unfolding c_def by (rule div_bounds(1)) simp
  have "DayFromYear (e - 1) = 365 * (q - 1) + a - b + c"
    unfolding DayFromYear_def e_def q_def a_def b_def c_def by (simp add: algebra_simps)
  then have "400 * DayFromYear (e - 1) = 146000 * q - 146000 + 400 * a - 400 * b + 400 * c"
    by simp
  moreover have "400 * a \<le> 100 * q" using a by simp
  moreover have "4 * q - 128 < 400 * b" using b by simp
  ultimately have "400 * DayFromYear (e - 1) \<le> 400 * d" using q c by linarith
  then show ?thesis by simp
qed

lemma DayFromYear_upper:
  fixes d :: int
  defines "e \<equiv> 1970 + (400 * d) div 146097"
  shows "d < DayFromYear (e + 2)"
proof -
  define q where "q = (400 * d) div 146097"
  define a where "a = (q + 3) div 4"
  define b where "b = (q + 71) div 100"
  define c where "c = (q + 371) div 400"
  have q: "400 * d < 146097 * q + 146097"
    unfolding q_def by (rule div_bounds(2)) simp
  have a: "q + 3 < 4 * a + 4" unfolding a_def by (rule div_bounds(2)) simp
  have b: "100 * b \<le> q + 71" unfolding b_def by (rule div_bounds(1)) simp
  have c: "q + 371 < 400 * c + 400" unfolding c_def by (rule div_bounds(2)) simp
  have "DayFromYear (e + 2) = 365 * (q + 2) + a - b + c"
    unfolding DayFromYear_def e_def q_def a_def b_def c_def by (simp add: algebra_simps)
  then have "400 * DayFromYear (e + 2) = 146000 * q + 292000 + 400 * a - 400 * b + 400 * c"
    by simp
  moreover have "100 * q - 100 < 400 * a" using a by simp
  moreover have "400 * b \<le> 4 * q + 284" using b by simp
  ultimately have "400 * d < 400 * DayFromYear (e + 2)" using q c by linarith
  then show ?thesis by simp
qed

lemma div_succ:
  fixes x k :: int
  assumes "0 < k"
  shows "(x + 1) div k - x div k = (if (x + 1) mod k = 0 then 1 else 0)"
proof -
  define q where "q = x div k"
  define r where "r = x mod k"
  have x: "x = k * q + r" unfolding q_def r_def by simp
  have r: "0 \<le> r" "r < k" unfolding r_def using assms by simp_all
  show ?thesis
  proof (cases "r = k - 1")
    case True
    then have "x + 1 = k * (q + 1) + 0" using x by (simp add: algebra_simps)
    then have "(x + 1) div k = q + 1" "(x + 1) mod k = 0"
      using assms by (auto intro: int_div_pos_eq int_mod_pos_eq)
    then show ?thesis by (simp add: q_def)
  next
    case False
    then have "x + 1 = k * q + (r + 1)" "0 \<le> r + 1" "r + 1 < k" using x r by auto
    then have "(x + 1) div k = q" "(x + 1) mod k = r + 1"
      by (auto intro: int_div_pos_eq int_mod_pos_eq)
    then show ?thesis using r by (simp add: q_def)
  qed
qed

lemma mod_shift:
  fixes y :: int
  shows "(y - c * b) mod b = y mod b"
proof -
  have "y - c * b = y + (- c) * b" by simp
  then show ?thesis by (simp only: mod_mult_self1)
qed

lemma leap_div4: "(y - 1968) div 4 - (y - 1969) div 4 = (if y mod 4 = 0 then 1 else (0::int))"
proof -
  have "(y - 1968) mod 4 = y mod 4" using mod_shift [of y 492 4] by simp
  then show ?thesis using div_succ [of 4 "y - 1969"] by simp
qed

lemma leap_div100: "(y - 1900) div 100 - (y - 1901) div 100 = (if y mod 100 = 0 then 1 else (0::int))"
proof -
  have "(y - 1900) mod 100 = y mod 100" using mod_shift [of y 19 100] by simp
  then show ?thesis using div_succ [of 100 "y - 1901"] by simp
qed

lemma leap_div400: "(y - 1600) div 400 - (y - 1601) div 400 = (if y mod 400 = 0 then 1 else (0::int))"
proof -
  have "(y - 1600) mod 400 = y mod 400" using mod_shift [of y 4 400] by simp
  then show ?thesis using div_succ [of 400 "y - 1601"] by simp
qed

lemma mod_400_imp: "(y::int) mod 400 = 0 \<Longrightarrow> y mod 100 = 0 \<and> y mod 4 = 0"
proof -
  assume "y mod 400 = 0"
  then have d: "400 dvd y" by (simp add: mod_eq_0_iff_dvd)
  have "(100::int) dvd 400" "(4::int) dvd 400" by simp_all
  then have "100 dvd y" "4 dvd y" using d dvd_trans by blast+
  then show ?thesis by (simp add: mod_eq_0_iff_dvd)
qed

lemma mod_100_imp: "(y::int) mod 100 = 0 \<Longrightarrow> y mod 4 = 0"
proof -
  assume "y mod 100 = 0"
  then have d: "100 dvd y" by (simp add: mod_eq_0_iff_dvd)
  have "(4::int) dvd 100" by simp
  then have "4 dvd y" using d dvd_trans by blast
  then show ?thesis by (simp add: mod_eq_0_iff_dvd)
qed

lemma DayFromYear_step: "DayFromYear (y + 1) - DayFromYear y = DaysInYear y"
proof -
  have "DayFromYear (y + 1) - DayFromYear y =
      365 + ((y - 1968) div 4 - (y - 1969) div 4) - ((y - 1900) div 100 - (y - 1901) div 100)
        + ((y - 1600) div 400 - (y - 1601) div 400)"
    unfolding DayFromYear_def by (simp add: algebra_simps)
  also have "\<dots> = DaysInYear y"
    unfolding leap_div4 leap_div100 leap_div400 DaysInYear_def leap_year_def
    using mod_400_imp [of y] mod_100_imp [of y] by auto
  finally show ?thesis .
qed


lemma YearFromTime_spec:
  "DayFromYear (YearFromTime t) \<le> Day t \<and> Day t < DayFromYear (YearFromTime t + 1)"
proof -
  define e where "e = 1970 + (400 * Day t) div 146097"
  have lo: "DayFromYear (e - 1) \<le> Day t"
    unfolding e_def by (rule DayFromYear_lower)
  have up: "Day t < DayFromYear (e + 1 + 1)"
    using DayFromYear_upper [of "Day t"] unfolding e_def by (simp add: algebra_simps)
  have y: "YearFromTime t =
      (if DayFromYear (e + 1) \<le> Day t then e + 1
       else if DayFromYear e \<le> Day t then e else e - 1)"
    unfolding YearFromTime_def e_def Let_def by simp
  show ?thesis
    unfolding y using lo up by auto
qed

lemma DayWithinYear_bounds:
  "0 \<le> DayWithinYear t \<and> DayWithinYear t < DaysInYear (YearFromTime t)"
  using YearFromTime_spec [of t] DayFromYear_step [of "YearFromTime t"]
  unfolding DayWithinYear_def by linarith

lemma InLeapYear_eq: "InLeapYear t = (if leap_year (YearFromTime t) then 1 else 0)"
  by (simp add: InLeapYear_def DaysInYear_def)

lemma month_bounds:
  "0 \<le> MonthFromTime t \<and> MonthFromTime t \<le> 11 \<and>
   month_start (InLeapYear t) (MonthFromTime t) \<le> DayWithinYear t \<and>
   DayWithinYear t < month_start (InLeapYear t) (MonthFromTime t + 1)"
proof -
  have d: "0 \<le> DayWithinYear t" "DayWithinYear t < 365 + InLeapYear t"
    using DayWithinYear_bounds [of t] by (auto simp: InLeapYear_eq DaysInYear_def)
  have l: "InLeapYear t = 0 \<or> InLeapYear t = 1"
    by (simp add: InLeapYear_def)
  show ?thesis
    using d l unfolding MonthFromTime_def Let_def month_start_def by auto
qed

lemma date_bounds:
  "1 \<le> DateFromTime t \<and>
   DateFromTime t \<le> month_start (InLeapYear t) (MonthFromTime t + 1) -
                     month_start (InLeapYear t) (MonthFromTime t) \<and>
   DateFromTime t \<le> 31"
proof -
  have l: "InLeapYear t = 0 \<or> InLeapYear t = 1"
    by (simp add: InLeapYear_def)
  have m: "0 \<le> MonthFromTime t" "MonthFromTime t \<le> 11"
    using month_bounds [of t] by auto
  have w: "month_start (InLeapYear t) (MonthFromTime t + 1) -
      month_start (InLeapYear t) (MonthFromTime t) \<le> 31"
    using l m unfolding month_start_def by auto
  show ?thesis
    using month_bounds [of t] w unfolding DateFromTime_def by linarith
qed

lemma MakeDay_fields:
  "MakeDay (YearFromTime t) (MonthFromTime t) (DateFromTime t) = Day t"
  unfolding MakeDay_def DateFromTime_def InLeapYear_eq DayWithinYear_def by simp

lemma TimeWithinDay_bounds: "0 \<le> TimeWithinDay t \<and> TimeWithinDay t < 86400000"
  by (simp add: TimeWithinDay_def msPerDay_def)

lemma time_fields_bounds:
  "0 \<le> HourFromTime t \<and> HourFromTime t \<le> 23 \<and> 0 \<le> MinFromTime t \<and> MinFromTime t \<le> 59 \<and>
   0 \<le> SecFromTime t \<and> SecFromTime t \<le> 59 \<and> 0 \<le> msFromTime t \<and> msFromTime t \<le> 999"
proof -
  have "0 \<le> HourFromTime t \<and> HourFromTime t < 24" unfolding HourFromTime_def by simp
  moreover have "0 \<le> MinFromTime t \<and> MinFromTime t < 60" unfolding MinFromTime_def by simp
  moreover have "0 \<le> SecFromTime t \<and> SecFromTime t < 60" unfolding SecFromTime_def by simp
  moreover have "0 \<le> msFromTime t \<and> msFromTime t < 1000" unfolding msFromTime_def by simp
  ultimately show ?thesis by linarith
qed

lemma MakeTime_fields:
  "MakeTime (HourFromTime t) (MinFromTime t) (SecFromTime t) (msFromTime t) = TimeWithinDay t"
proof -
  define w where "w = TimeWithinDay t"
  define u where "u = w div 1000"
  define v where "v = u div 60"
  have w: "0 \<le> w" "w < 86400000" using TimeWithinDay_bounds [of t] by (auto simp: w_def)
  have v_eq: "v = w div 60000"
    unfolding v_def u_def by (simp add: zdiv_zmult2_eq)
  have h_eq: "v div 60 = w div 3600000"
    unfolding v_eq by (simp add: zdiv_zmult2_eq)
  have "3600000 * (w div 3600000) \<le> w" "w < 3600000 * (w div 3600000) + 3600000"
    by (rule div_bounds; simp)+
  then have "w div 3600000 < 24" "0 \<le> w div 3600000" using w by linarith+
  then have hour: "HourFromTime t = v div 60"
    unfolding HourFromTime_def w_def [symmetric] h_eq by simp
  have minute: "MinFromTime t = v mod 60"
    unfolding MinFromTime_def w_def [symmetric] v_eq by simp
  have second: "SecFromTime t = u mod 60"
    unfolding SecFromTime_def w_def [symmetric] u_def by simp
  have ms: "msFromTime t = w mod 1000"
    unfolding msFromTime_def w_def by simp
  have "w = 1000 * u + w mod 1000" unfolding u_def by simp
  moreover have "u = 60 * v + u mod 60" unfolding v_def by simp
  moreover have "v = 60 * (v div 60) + v mod 60" by simp
  ultimately have "v div 60 * 3600000 + v mod 60 * 60000 + u mod 60 * 1000 + w mod 1000 = w"
    by linarith
  then show ?thesis
    unfolding MakeTime_def hour minute second ms w_def .
qed

lemma MakeDate_fields:
  "MakeDate (MakeDay (YearFromTime t) (MonthFromTime t) (DateFromTime t))
     (MakeTime (HourFromTime t) (MinFromTime t) (SecFromTime t) (msFromTime t)) = t"
  unfolding MakeDay_fields MakeTime_fields MakeDate_def Day_def TimeWithinDay_def by simp

lemma is_digit_digit: "k < 10 \<Longrightarrow> is_digit (digit k)"
  by (simp add: is_digit_def word_le_nat_alt unat_digit)

lemma digit_not_sign: "k < 10 \<Longrightarrow> digit k \<noteq> 0x2B \<and> digit k \<noteq> 0x2D"
proof -
  assume k: "k < 10"
  have "unat (digit k) \<noteq> unat (0x2B :: 16 word)" "unat (digit k) \<noteq> unat (0x2D :: 16 word)"
    using k by (simp_all add: unat_digit)
  then show ?thesis by auto
qed

lemma read_digits_pad:
  "read_digits (n + m) acc (pad n v @ rest) = read_digits m (acc * 10 ^ n + v mod 10 ^ n) rest"
proof (induction n arbitrary: m v rest)
  case 0
  then show ?case by simp
next
  case (Suc n)
  have d: "v mod 10 < 10" by simp
  have "read_digits (Suc n + m) acc (pad (Suc n) v @ rest) =
      read_digits (n + Suc m) acc (pad n (v div 10) @ digit (v mod 10) # rest)"
    by simp
  also have "\<dots> = read_digits (Suc m) (acc * 10 ^ n + (v div 10) mod 10 ^ n) (digit (v mod 10) # rest)"
    by (rule Suc.IH)
  also have "\<dots> = read_digits m (10 * (acc * 10 ^ n + (v div 10) mod 10 ^ n) + v mod 10) rest"
    using d by (simp add: is_digit_digit unat_digit)
  also have "10 * (acc * 10 ^ n + (v div 10) mod 10 ^ n) + v mod 10 = acc * 10 ^ Suc n + v mod 10 ^ Suc n"
  proof -
    have "v mod 10 ^ Suc n = 10 * ((v div 10) mod 10 ^ n) + v mod 10"
      by (simp add: mod_mult2_eq)
    then show ?thesis by (simp add: algebra_simps)
  qed
  finally show ?case .
qed

lemma read_digits_pad_exact:
  "v < 10 ^ n \<Longrightarrow> read_digits n 0 (pad n v @ rest) = Some (v, rest)"
  using read_digits_pad [of n 0 0 v rest] by simp

lemma iso_fields_roundtrip:
  "iso_fields (YearFromTime t)
     ([0x2D] @ pad 2 (nat (MonthFromTime t + 1)) @
      [0x2D] @ pad 2 (nat (DateFromTime t)) @
      [0x54] @ pad 2 (nat (HourFromTime t)) @
      [0x3A] @ pad 2 (nat (MinFromTime t)) @
      [0x3A] @ pad 2 (nat (SecFromTime t)) @
      [0x2E] @ pad 3 (nat (msFromTime t)) @ [0x5A]) = Some t"
proof -
  define mo where "mo = nat (MonthFromTime t + 1)"
  define d where "d = nat (DateFromTime t)"
  define h where "h = nat (HourFromTime t)"
  define mi where "mi = nat (MinFromTime t)"
  define sec where "sec = nat (SecFromTime t)"
  define ms where "ms = nat (msFromTime t)"
  define L where "L = (if leap_year (YearFromTime t) then 1 else 0 :: int)"
  have mo: "int mo = MonthFromTime t + 1" "1 \<le> mo" "mo \<le> 12" "mo < 10 ^ 2"
    using month_bounds [of t] by (auto simp: mo_def)
  have d: "int d = DateFromTime t" "1 \<le> d" "d < 10 ^ 2"
    using date_bounds [of t] by (auto simp: d_def)
  have dm: "int d \<le> month_start L (int mo) - month_start L (int mo - 1)"
    using date_bounds [of t] by (simp add: d mo L_def InLeapYear_eq)
  have h: "int h = HourFromTime t" "h \<le> 23" "h < 10 ^ 2"
    using time_fields_bounds [of t] by (auto simp: h_def)
  have mi: "int mi = MinFromTime t" "mi \<le> 59" "mi < 10 ^ 2"
    using time_fields_bounds [of t] by (auto simp: mi_def)
  have sec: "int sec = SecFromTime t" "sec \<le> 59" "sec < 10 ^ 2"
    using time_fields_bounds [of t] by (auto simp: sec_def)
  have ms: "int ms = msFromTime t" "ms < 10 ^ 3"
    using time_fields_bounds [of t] by (auto simp: ms_def)
  have val: "MakeDate (MakeDay (YearFromTime t) (int mo - 1) (int d))
      (MakeTime (int h) (int mi) (int sec) (int ms)) = t"
    using MakeDate_fields [of t] by (simp add: mo d h mi sec ms)
  show ?thesis
    unfolding iso_fields_def mo_def [symmetric] d_def [symmetric] h_def [symmetric]
      mi_def [symmetric] sec_def [symmetric] ms_def [symmetric] L_def [symmetric]
    using mo(2,3) d(2) dm h(2) mi(2) sec(2) val
    by (simp add: read_digits_pad_exact [OF mo(4)] read_digits_pad_exact [OF d(3)]
        read_digits_pad_exact [OF h(3)] read_digits_pad_exact [OF mi(3)]
        read_digits_pad_exact [OF sec(3)] read_digits_pad_exact [OF ms(2)])
qed

lemma YearFromTime_range:
  assumes "\<bar>t\<bar> \<le> 8640000000000000"
  shows "- 999999 \<le> YearFromTime t \<and> YearFromTime t \<le> 999999"
proof -
  define q where "q = (400 * Day t) div 146097"
  have "msPerDay * Day t \<le> t" "t < msPerDay * Day t + msPerDay"
    unfolding Day_def by (rule div_bounds; simp add: msPerDay_def)+
  then have day: "- 100000000 \<le> Day t" "Day t \<le> 100000000"
    using assms unfolding msPerDay_def by linarith+
  have "146097 * q \<le> 400 * Day t" "400 * Day t < 146097 * q + 146097"
    unfolding q_def by (rule div_bounds; simp)+
  then have q: "- 300000 \<le> q" "q \<le> 300000"
    using day by linarith+
  have "YearFromTime t = 1970 + q + 1 \<or> YearFromTime t = 1970 + q \<or> YearFromTime t = 1970 + q - 1"
    unfolding YearFromTime_def Let_def q_def by auto
  then show ?thesis using q by linarith
qed

lemma pad_head: "\<exists>k cs. k < 10 \<and> pad (Suc n) v = digit k # cs"
proof (induction n arbitrary: v)
  case 0
  have "v mod 10 < 10 \<and> pad (Suc 0) v = digit (v mod 10) # []" by simp
  then show ?case by blast
next
  case (Suc n)
  obtain k cs where "k < 10" "pad (Suc n) (v div 10) = digit k # cs"
    using Suc.IH [of "v div 10"] by blast
  then have "k < 10 \<and> pad (Suc (Suc n)) v = digit k # (cs @ [digit (v mod 10)])"
    by simp
  then show ?case by blast
qed

lemma read_year_unsigned:
  assumes "k < 10"
  shows "read_year (digit k # cs) =
     (case read_digits 4 0 (digit k # cs) of None \<Rightarrow> None | Some (y, r) \<Rightarrow> Some (int y, r))"
proof -
  have "digit k \<noteq> 0x2B" "digit k \<noteq> 0x2D"
    using digit_not_sign [OF assms] by simp_all
  then show ?thesis
    unfolding read_year_def by (simp only: list.case if_False)
qed

lemma read_year_minus:
  "read_year (0x2D # cs) =
     (case read_digits 6 0 cs of
        None \<Rightarrow> None
      | Some (y, r) \<Rightarrow> if y = 0 then None else Some (- int y, r))"
proof -
  have "(0x2D :: 16 word) \<noteq> 0x2B" by simp
  then show ?thesis
    unfolding read_year_def by (simp only: list.case if_False if_True refl)
qed

lemma read_year_plus:
  "read_year (0x2B # cs) =
     (case read_digits 6 0 cs of None \<Rightarrow> None | Some (y, r) \<Rightarrow> Some (int y, r))"
  unfolding read_year_def by (simp only: list.case if_True refl)


lemma read_year_year_string:
  assumes "- 999999 \<le> y" "y \<le> 999999"
  shows "read_year (year_string y @ rest) = Some (y, rest)"
proof (cases "0 \<le> y \<and> y \<le> 9999")
  case True
  then have small: "nat y < 10 ^ 4" by (simp add: nat_less_iff)
  have ys: "year_string y = pad 4 (nat y)" using True by (simp add: year_string_def)
  obtain k cs where k: "k < 10" "pad (Suc 3) (nat y) = digit k # cs"
    using pad_head [of 3 "nat y"] by blast
  have "(4::nat) = Suc 3" by simp
  then have four: "pad 4 (nat y) = digit k # cs"
    using k(2) by (simp only:)
  have "read_year (digit k # cs @ rest) =
      (case read_digits 4 0 (digit k # cs @ rest) of
         None \<Rightarrow> None | Some (y, r) \<Rightarrow> Some (int y, r))"
    by (rule read_year_unsigned [OF k(1)])
  also have "digit k # cs @ rest = pad 4 (nat y) @ rest"
    by (simp add: four)
  also have "read_digits 4 0 (pad 4 (nat y) @ rest) = Some (nat y, rest)"
    by (rule read_digits_pad_exact [OF small])
  finally show ?thesis using True by (simp add: ys)
next
  case False
  have big: "nat \<bar>y\<bar> < 10 ^ 6" using assms by (simp add: nat_less_iff)
  have rd: "read_digits 6 0 (pad 6 (nat \<bar>y\<bar>) @ rest) = Some (nat \<bar>y\<bar>, rest)"
    by (rule read_digits_pad_exact [OF big])
  show ?thesis
  proof (cases "y < 0")
    case True
    then have ys: "year_string y @ rest = 0x2D # pad 6 (nat \<bar>y\<bar>) @ rest"
      by (simp add: year_string_def)
    have "nat \<bar>y\<bar> \<noteq> 0" "- int (nat \<bar>y\<bar>) = y" using True by simp_all
    then show ?thesis
      unfolding ys read_year_minus rd by simp
  next
    case pos: False
    then have ys: "year_string y @ rest = 0x2B # pad 6 (nat \<bar>y\<bar>) @ rest"
      using False by (simp add: year_string_def)
    have "int (nat \<bar>y\<bar>) = y" using pos by simp
    then show ?thesis
      unfolding ys read_year_plus rd by simp
  qed
qed

lemma parse_iso_utc_toISOString:
  assumes "\<bar>t\<bar> \<le> 8640000000000000"
  shows "parse_iso_utc (toISOString t) = Some t"
proof -
  have range: "- 999999 \<le> YearFromTime t" "YearFromTime t \<le> 999999"
    using YearFromTime_range [OF assms] by auto
  show ?thesis
    unfolding parse_iso_utc_def toISOString_def read_year_year_string [OF range]
    by (simp only: option.case prod.case iso_fields_roundtrip)
qed

lemma Date_parse_toISOString:
  "\<bar>t\<bar> \<le> 8640000000000000 \<Longrightarrow> Date_parse other (toISOString t) = Time_Value t"
  by (simp add: Date_parse_def parse_iso_utc_toISOString TimeClip_def)

section \<open>Properties of the persistence format\<close>

subsection \<open>Strings\<close>

text \<open>
  Reading a quoted string gives the string back: every escape \<open>QuoteJSONString\<close> writes
  is one the string reader undoes.
\<close>

lemma hex_val_hex_digit: "n < 16 \<Longrightarrow> hex_val (hex_digit n) = Some n"
proof -
  assume n: "n < 16"
  show ?thesis
  proof (cases "n < 10")
    case True
    have u: "unat (of_nat (48 + n) :: 16 word) = 48 + n"
      using True by (simp only: unat_of_nat) simp
    have "(0x30 :: 16 word) \<le> of_nat (48 + n) \<and> of_nat (48 + n) \<le> (0x39 :: 16 word)"
      unfolding word_le_nat_alt u using True by simp
    then show ?thesis
      using True u by (simp only: hex_val_def hex_digit_def if_True) simp
  next
    case False
    have u: "unat (of_nat (87 + n) :: 16 word) = 87 + n"
      using n by (simp only: unat_of_nat) simp
    have a: "\<not> ((0x30 :: 16 word) \<le> of_nat (87 + n) \<and> of_nat (87 + n) \<le> (0x39 :: 16 word))"
      unfolding word_le_nat_alt u using False by simp
    have b: "(0x61 :: 16 word) \<le> of_nat (87 + n) \<and> of_nat (87 + n) \<le> (0x66 :: 16 word)"
      unfolding word_le_nat_alt u using False n by simp
    show ?thesis
      using False a b u by (simp only: hex_val_def hex_digit_def if_True if_False) simp
  qed
qed

lemma hex4_digits:
  "hex4 (hex_digit (unat c div 4096)) (hex_digit (unat c div 256 mod 16))
     (hex_digit (unat c div 16 mod 16)) (hex_digit (unat c mod 16)) = Some (c :: 16 word)"
proof -
  define n where "n = unat c"
  have lt: "n < 65536" unfolding n_def using unsigned_less [of c, where ?'a = nat] by simp
  then have a: "n div 4096 < 16" by simp
  have v: "((n div 4096 * 16 + n div 256 mod 16) * 16 + n div 16 mod 16) * 16 + n mod 16 = n"
  proof -
    define q1 q2 q3 r0 r1 r2 where "q1 = n div 16" and "q2 = n div 256" and "q3 = n div 4096"
      and "r0 = n mod 16" and "r1 = n div 16 mod 16" and "r2 = n div 256 mod 16"
    have "n = 16 * q1 + r0" unfolding q1_def r0_def by simp
    moreover have "q1 = 16 * q2 + r1"
    proof -
      have "n div 16 div 16 = n div 256" by (simp add: div_mult2_eq [symmetric])
      then show ?thesis unfolding q1_def q2_def r1_def by (metis mult_div_mod_eq)
    qed
    moreover have "q2 = 16 * q3 + r2"
    proof -
      have "n div 256 div 16 = n div 4096" by (simp add: div_mult2_eq [symmetric])
      then show ?thesis unfolding q2_def q3_def r2_def by (metis mult_div_mod_eq)
    qed
    ultimately have "((q3 * 16 + r2) * 16 + r1) * 16 + r0 = n" by (simp add: algebra_simps)
    then show ?thesis unfolding q1_def q2_def q3_def r0_def r1_def r2_def .
  qed
  have c: "of_nat n = c" unfolding n_def by simp
  have h: "hex_val (hex_digit (n div 4096)) = Some (n div 4096)"
    "hex_val (hex_digit (n div 256 mod 16)) = Some (n div 256 mod 16)"
    "hex_val (hex_digit (n div 16 mod 16)) = Some (n div 16 mod 16)"
    "hex_val (hex_digit (n mod 16)) = Some (n mod 16)"
    using a by (simp_all add: hex_val_hex_digit)
  show ?thesis
    unfolding hex4_def n_def [symmetric] h
    by (simp only: prod.case option.case v c)
qed

lemma lex_string_plain:
  "c \<noteq> 0x22 \<Longrightarrow> c \<noteq> 0x5C \<Longrightarrow> \<not> c < 0x20 \<Longrightarrow>
   lex_string (c # r) = cons_string c (lex_string r)"
  by simp

lemma surrogate_plain:
  assumes "is_high_surrogate c \<or> is_low_surrogate c"
  shows "c \<noteq> 0x22 \<and> c \<noteq> 0x5C \<and> \<not> c < 0x20"
proof -
  have "0xD800 \<le> unat c"
    using assms by (auto simp: is_high_surrogate_def is_low_surrogate_def word_le_nat_alt)
  then have "unat c \<noteq> unat (0x22 :: 16 word)" "unat c \<noteq> unat (0x5C :: 16 word)"
    "\<not> unat c < unat (0x20 :: 16 word)"
    by simp_all
  then show ?thesis
    by (auto simp: word_less_nat_alt)
qed

lemma lex_string_escape:
  "lex_string (unicode_escape c @ r) = cons_string c (lex_string r)"
  unfolding unicode_escape_def by (simp add: hex4_digits)

lemma lex_string_quote_unit:
  "lex_string (quote_unit c @ r) = cons_string c (lex_string r)"
proof -
  consider "c = 0x08" | "c = 0x09" | "c = 0x0A" | "c = 0x0C" | "c = 0x0D" | "c = 0x22" | "c = 0x5C"
    | "c \<notin> {0x08, 0x09, 0x0A, 0x0C, 0x0D, 0x22, 0x5C}"
      "c < 0x20 \<or> is_high_surrogate c \<or> is_low_surrogate c"
    | "c \<notin> {0x08, 0x09, 0x0A, 0x0C, 0x0D, 0x22, 0x5C}"
      "\<not> (c < 0x20 \<or> is_high_surrogate c \<or> is_low_surrogate c)"
    by blast
  then show ?thesis
  proof cases
    case 8
    then have "quote_unit c = unicode_escape c" by (simp add: quote_unit_def)
    then show ?thesis by (simp only: lex_string_escape)
  next
    case 9
    then have "quote_unit c = [c]" by (simp add: quote_unit_def)
    then show ?thesis using 9 by simp
  qed (simp_all add: quote_unit_def simple_escape_def)
qed

lemma lex_string_quote_units:
  "lex_string (quote_units s @ 0x22 # rest) = Some (s, rest)"
proof (induction s rule: quote_units.induct)
  case 1
  then show ?case by simp
next
  case (2 c)
  have "lex_string (quote_units [c] @ 0x22 # rest) = cons_string c (lex_string (0x22 # rest))"
    by (simp only: quote_units.simps lex_string_quote_unit)
  then show ?case by (simp add: cons_string_def)
next
  case (3 c d cs)
  show ?case
  proof (cases "is_high_surrogate c \<and> is_low_surrogate d")
    case True
    then have pc: "c \<noteq> 0x22" "c \<noteq> 0x5C" "\<not> c < 0x20"
      and pd: "d \<noteq> 0x22" "d \<noteq> 0x5C" "\<not> d < 0x20"
      using surrogate_plain [of c] surrogate_plain [of d] by auto
    have "lex_string (c # d # quote_units cs @ 0x22 # rest) =
        cons_string c (cons_string d (lex_string (quote_units cs @ 0x22 # rest)))"
      by (simp only: lex_string_plain [OF pc] lex_string_plain [OF pd])
    then show ?thesis
      unfolding 3(1) [OF True] using True by (simp add: cons_string_def)
  next
    case False
    then have "quote_units (c # d # cs) = quote_unit c @ quote_units (d # cs)"
      by (simp only: quote_units.simps if_False)
    then have "lex_string (quote_units (c # d # cs) @ 0x22 # rest) =
        cons_string c (lex_string (quote_units (d # cs) @ 0x22 # rest))"
      by (simp only: append_assoc lex_string_quote_unit)
    also have "\<dots> = Some (c # d # cs, rest)"
      unfolding 3(2) [OF False] by (simp add: cons_string_def)
    finally show ?thesis .
  qed
qed

subsection \<open>The text of a task list\<close>

text \<open>
  The text \<open>JSON.stringify\<close> writes for a task list splits into the tokens of its
  tasks, and \<open>JSON.parse\<close> reads from them an array with one object per task.
\<close>

lemma lex_punct:
  "lex (0x7B # r) = cons_token T_lbrace (lex r)"
  "lex (0x7D # r) = cons_token T_rbrace (lex r)"
  "lex (0x5B # r) = cons_token T_lbrack (lex r)"
  "lex (0x5D # r) = cons_token T_rbrack (lex r)"
  "lex (0x3A # r) = cons_token T_colon (lex r)"
  "lex (0x2C # r) = cons_token T_comma (lex r)"
  by (simp_all add: lex.simps is_json_space_def)

lemma lex_quoted: "lex (QuoteJSONString s @ r) = cons_token (T_string s) (lex r)"
proof -
  have "lex (0x22 # quote_units s @ 0x22 # r) =
      (case lex_string (quote_units s @ 0x22 # r) of
         None \<Rightarrow> None | Some (s, r) \<Rightarrow> cons_token (T_string s) (lex r))"
    by (subst lex.simps) (simp add: is_json_space_def)
  then show ?thesis
    by (simp add: QuoteJSONString_def lex_string_quote_units)
qed

lemma lex_literal:
  "lex (lit ''true'' @ r) = cons_token T_true (lex r)"
  "lex (lit ''false'' @ r) = cons_token T_false (lex r)"
  "lex (lit ''null'' @ r) = cons_token T_null (lex r)"
  by (simp_all add: lit_def lex.simps is_json_space_def strip_prefix_def)

lemma quoted_keys:
  "lit ''\"id\"'' = QuoteJSONString (lit ''id'')"
  "lit ''\"text\"'' = QuoteJSONString (lit ''text'')"
  "lit ''\"completed\"'' = QuoteJSONString (lit ''completed'')"
  "lit ''\"createdAt\"'' = QuoteJSONString (lit ''createdAt'')"
  by (simp_all add: lit_def QuoteJSONString_def quote_unit_def is_high_surrogate_def
      is_low_surrogate_def)

lemma lex_date: "lex (Date_toJSON d @ r) = cons_token (date_token d) (lex r)"
  by (cases d) (simp_all add: Date_toJSON_def date_token_def lex_literal lex_quoted)

lemma lex_bool:
  "lex ((if b then lit ''true'' else lit ''false'') @ r) =
     cons_token (if b then T_true else T_false) (lex r)"
  by (simp add: lex_literal)

lemma stringify_task_parts:
  "stringify_task t =
     0x7B # QuoteJSONString (lit ''id'') @ 0x3A # QuoteJSONString (task_id t) @
     0x2C # QuoteJSONString (lit ''text'') @ 0x3A # QuoteJSONString (task_text t) @
     0x2C # QuoteJSONString (lit ''completed'') @
     0x3A # (if completed t then lit ''true'' else lit ''false'') @
     0x2C # QuoteJSONString (lit ''createdAt'') @ 0x3A # Date_toJSON (createdAt t) @ [0x7D]"
  unfolding stringify_task_def quoted_keys [symmetric] by (simp add: lit_def)

lemma cons_tokens_simps:
  "cons_token t (cons_tokens ts r) = cons_tokens (t # ts) r"
  "cons_token t r = cons_tokens [t] r"
  by (simp_all add: cons_token_def cons_tokens_def split: option.splits)

lemma lex_task: "lex (stringify_task t @ rest) = cons_tokens (task_tokens t) (lex rest)"
proof -
  have "lex (stringify_task t @ rest) =
      cons_token T_lbrace (cons_token (T_string (lit ''id'')) (cons_token T_colon
        (cons_token (T_string (task_id t)) (cons_token T_comma
        (cons_token (T_string (lit ''text'')) (cons_token T_colon
        (cons_token (T_string (task_text t)) (cons_token T_comma
        (cons_token (T_string (lit ''completed'')) (cons_token T_colon
        (cons_token (if completed t then T_true else T_false) (cons_token T_comma
        (cons_token (T_string (lit ''createdAt'')) (cons_token T_colon
        (cons_token (date_token (createdAt t)) (cons_token T_rbrace (lex rest)))))))))))))))))"
    unfolding stringify_task_parts
    by (simp only: append_Cons append_Nil append_assoc lex_punct lex_quoted lex_bool lex_date)
  then show ?thesis
    by (simp add: task_tokens_def cons_token_def cons_tokens_def split: option.splits)
qed

lemma cons_tokens_append: "cons_tokens xs (cons_tokens ys r) = cons_tokens (xs @ ys) r"
  by (simp add: cons_tokens_def split: option.splits)

lemma lex_tasks:
  "lex (join_comma (map stringify_task ts) @ rest) =
     cons_tokens (sep_tokens (map task_tokens ts)) (lex rest)"
proof (induction ts)
  case Nil
  then show ?case by (simp add: cons_tokens_def split: option.splits)
next
  case (Cons t ts)
  show ?case
  proof (cases ts)
    case Nil
    then show ?thesis by (simp add: lex_task)
  next
    case (Cons u us)
    have "lex (join_comma (map stringify_task (t # u # us)) @ rest) =
        lex (stringify_task t @ 0x2C # join_comma (map stringify_task (u # us)) @ rest)"
      by simp
    also have "\<dots> = cons_tokens (task_tokens t)
        (cons_token T_comma (lex (join_comma (map stringify_task (u # us)) @ rest)))"
      by (simp only: lex_task lex_punct)
    also have "\<dots> = cons_tokens (task_tokens t)
        (cons_tokens [T_comma] (cons_tokens (sep_tokens (map task_tokens (u # us))) (lex rest)))"
      using Cons.IH unfolding Cons by (simp only: cons_tokens_simps(2))
    also have "\<dots> = cons_tokens (sep_tokens (map task_tokens (t # u # us))) (lex rest)"
      by (simp add: cons_tokens_append)
    finally show ?thesis unfolding Cons .
  qed
qed

lemma lex_JSON_stringify:
  "lex (JSON_stringify ts) = Some (T_lbrack # sep_tokens (map task_tokens ts) @ [T_rbrack])"
proof -
  have "lex (JSON_stringify ts) =
      cons_token T_lbrack (cons_tokens (sep_tokens (map task_tokens ts))
        (cons_token T_rbrack (lex [])))"
    unfolding JSON_stringify_def
    by (simp only: append_Cons append_Nil lex_punct lex_tasks)
  then show ?thesis
    by (simp add: cons_token_def cons_tokens_def lex.simps(1))
qed

lemma feed_task:
  assumes "wants_value e"
  shows "feed_all (task_tokens t @ rest) (Some (e, In_arr es # K)) =
     feed_all rest (Some (Want_sep, In_arr (task_json t # es) # K))"
proof (cases "createdAt t")
  case Invalid_Date
  then show ?thesis
    using assms by (simp add: task_tokens_def task_json_def date_token_def date_json_def
        wants_value_def)
next
  case (Time_Value v)
  then show ?thesis
    using assms by (simp add: task_tokens_def task_json_def date_token_def date_json_def
        wants_value_def)
qed

lemma feed_tasks:
  assumes "wants_value e" "ts \<noteq> []"
  shows "feed_all (sep_tokens (map task_tokens ts) @ T_rbrack # rest) (Some (e, In_arr es # K)) =
     feed_all rest (deliver (JArr (rev es @ map task_json ts)) K)"
  using assms
proof (induction ts arbitrary: e es)
  case Nil
  then show ?case by simp
next
  case (Cons t ts)
  show ?case
  proof (cases ts)
    case Nil
    have "feed_all (task_tokens t @ T_rbrack # rest) (Some (e, In_arr es # K)) =
        feed_all (T_rbrack # rest) (Some (Want_sep, In_arr (task_json t # es) # K))"
      by (rule feed_task [OF Cons.prems(1)])
    then show ?thesis unfolding Nil by simp
  next
    case (Cons u us)
    have w: "wants_value Want_value" by (simp add: wants_value_def)
    have "feed_all (sep_tokens (map task_tokens (t # u # us)) @ T_rbrack # rest)
        (Some (e, In_arr es # K)) =
        feed_all (task_tokens t @ T_comma # sep_tokens (map task_tokens (u # us)) @ T_rbrack # rest)
          (Some (e, In_arr es # K))"
      by simp
    also have "\<dots> = feed_all (T_comma # sep_tokens (map task_tokens (u # us)) @ T_rbrack # rest)
        (Some (Want_sep, In_arr (task_json t # es) # K))"
      by (rule feed_task [OF Cons.prems(1)])
    also have "\<dots> = feed_all (sep_tokens (map task_tokens (u # us)) @ T_rbrack # rest)
        (Some (Want_value, In_arr (task_json t # es) # K))"
      by simp
    also have "\<dots> = feed_all rest (deliver (JArr (rev (task_json t # es) @ map task_json (u # us))) K)"
      using Cons.IH [of Want_value "task_json t # es"] w unfolding Cons by simp
    finally show ?thesis unfolding Cons by simp
  qed
qed

lemma parse_task_tokens:
  "parse_tokens (T_lbrack # sep_tokens (map task_tokens ts) @ [T_rbrack]) =
     Some (JArr (map task_json ts))"
proof (cases "ts = []")
  case True
  then show ?thesis by (simp add: parse_tokens_def wants_value_def)
next
  case False
  have w: "wants_value Want_value_or_close" by (simp add: wants_value_def)
  have "feed_all (T_lbrack # sep_tokens (map task_tokens ts) @ [T_rbrack]) (Some (Want_value, [])) =
      feed_all (sep_tokens (map task_tokens ts) @ T_rbrack # [])
        (Some (Want_value_or_close, In_arr [] # []))"
    by (simp add: wants_value_def)
  also have "\<dots> = feed_all [] (deliver (JArr (rev [] @ map task_json ts)) [])"
    by (rule feed_tasks [OF w False])
  finally show ?thesis by (simp add: parse_tokens_def)
qed

lemma JSON_parse_stringify: "JSON_parse (JSON_stringify ts) = Some (JArr (map task_json ts))"
  by (simp add: JSON_parse_def lex_JSON_stringify parse_task_tokens)

subsection \<open>Reviving the parsed tasks\<close>

lemma task_keys_distinct:
  "lit ''id'' \<noteq> lit ''text''" "lit ''id'' \<noteq> lit ''completed''" "lit ''id'' \<noteq> lit ''createdAt''"
  "lit ''text'' \<noteq> lit ''completed''" "lit ''text'' \<noteq> lit ''createdAt''"
  "lit ''completed'' \<noteq> lit ''createdAt''"
  by (simp_all add: lit_def)

lemma obj_get_task:
  "obj_get (lit ''id'') [(lit ''id'', a), (lit ''text'', b), (lit ''completed'', c), (lit ''createdAt'', d)] = Some a"
  "obj_get (lit ''text'') [(lit ''id'', a), (lit ''text'', b), (lit ''completed'', c), (lit ''createdAt'', d)] = Some b"
  "obj_get (lit ''completed'') [(lit ''id'', a), (lit ''text'', b), (lit ''completed'', c), (lit ''createdAt'', d)] = Some c"
  "obj_get (lit ''createdAt'') [(lit ''id'', a), (lit ''text'', b), (lit ''completed'', c), (lit ''createdAt'', d)] = Some d"
  using task_keys_distinct by (simp_all add: obj_get_def)

lemma new_Date_date_json:
  assumes "d = Invalid_Date \<or> valid_date d"
  shows "new_Date pf (Some (date_json d)) =
     Inr (case d of Invalid_Date \<Rightarrow> Time_Value 0 | Time_Value v \<Rightarrow> Time_Value v)"
proof (cases d)
  case Invalid_Date
  then show ?thesis by (simp add: date_json_def)
next
  case (Time_Value v)
  then have "\<bar>v\<bar> \<le> 8640000000000000" using assms by (simp add: valid_date_def)
  then show ?thesis
    using Time_Value by (simp add: date_json_def Date_parse_toISOString)
qed

lemma revive_task_json:
  assumes "createdAt t = Invalid_Date \<or> valid_date (createdAt t)"
  shows "revive pf (task_json t) = Inr (loaded_task t)"
  unfolding task_json_def
  by (simp add: obj_get_task new_Date_date_json [OF assms] loaded_task_def reloaded_def)

lemma revive_all_task_json:
  "\<forall>t \<in> set ts. createdAt t = Invalid_Date \<or> valid_date (createdAt t) \<Longrightarrow>
   revive_all pf (map task_json ts) = Inr (map loaded_task ts)"
  by (induction ts) (simp_all add: revive_task_json)

lemma as_task_loaded_task: "as_task (loaded_task t) = Some (reloaded t)"
  by (cases t) (simp add: as_task_def loaded_task_def obj_get_task reloaded_def)

lemma as_tasks_loaded_task: "as_tasks (map loaded_task ts) = Some (map reloaded ts)"
  by (induction ts) (simp_all add: as_task_loaded_task)

lemma JSON_stringify_not_empty: "JSON_stringify ts \<noteq> []"
  by (simp add: JSON_stringify_def)

lemma load_JSON_stringify:
  assumes "\<forall>t \<in> set ts. createdAt t = Invalid_Date \<or> valid_date (createdAt t)"
  shows "load pf (Some (JSON_stringify ts)) = (map loaded_task ts, [])"
  by (simp add: load_def JSON_stringify_not_empty JSON_parse_stringify
      revive_all_task_json [OF assms])

lemma mount_save:
  assumes "\<forall>t \<in> set (tasks st). createdAt t = Invalid_Date \<or> valid_date (createdAt t)"
  shows "mount pf (Some (save st)) = Some (initial\<lparr>tasks := map reloaded (tasks st)\<rparr>)"
  by (simp add: mount_def save_def load_JSON_stringify [OF assms] as_tasks_loaded_task)

lemma reloaded_valid: "valid_date (createdAt t) \<Longrightarrow> reloaded t = t"
  by (cases "createdAt t") (simp_all add: reloaded_def valid_date_def)

section \<open>Properties of loading and saving\<close>

text \<open>
  Claim C8, as the code has it: the mount effect has no fault outcome. When nothing is
  stored it leaves the empty task list, so the component starts in its initial state with
  a total count of 0, and nothing is logged. When the stored text is not empty and does
  not parse, the task list is empty as well, and the SyntaxError goes to
  \<open>console.error\<close> and nowhere else. The empty string is falsy: it is not parsed, the
  task list stays empty and nothing is logged, as when nothing is stored. Whatever is
  stored, an error inside the \<open>try\<close> block is logged once and leaves the empty task
  list.
\<close>

theorem load_never_faults:
  "load pf None = ([], []) \<and> mount pf None = Some initial \<and> totalTasks initial = 0 \<and>
   (s \<noteq> [] \<and> JSON_parse s = None \<longrightarrow>
      load pf (Some s) = ([], [SyntaxError]) \<and> mount pf (Some s) = Some initial) \<and>
   load pf (Some []) = ([], []) \<and> mount pf (Some []) = Some initial \<and>
   (snd (load pf saved) \<noteq> [] \<longrightarrow>
      fst (load pf saved) = [] \<and> length (snd (load pf saved)) = 1 \<and>
      mount pf saved = Some initial)"
proof -
  have a: "load pf None = ([], [])"
    by (simp add: load_def)
  have b: "mount pf None = Some initial"
    by (simp add: mount_def load_def initial_def)
  have c: "totalTasks initial = 0"
    by (simp add: totalTasks_def initial_def)
  have d: "s \<noteq> [] \<and> JSON_parse s = None \<longrightarrow>
      load pf (Some s) = ([], [SyntaxError]) \<and> mount pf (Some s) = Some initial"
    by (simp add: mount_def load_def initial_def)
  have e: "load pf (Some []) = ([], []) \<and> mount pf (Some []) = Some initial"
    by (simp add: mount_def load_def initial_def)
  have f: "snd (load pf saved) \<noteq> [] \<longrightarrow>
      fst (load pf saved) = [] \<and> length (snd (load pf saved)) = 1 \<and>
      mount pf saved = Some initial"
    by (auto simp: mount_def load_def initial_def split: option.splits json.splits sum.splits if_splits)
  from a b c d e f show ?thesis by blast
qed

lemma not_json: "JSON_parse (lit ''not json'') = None"
  by (simp add: JSON_parse_def lit_def lex.simps is_json_space_def strip_prefix_def)

lemma object_json: "JSON_parse (lit ''{}'') = Some (JObj [])"
  by (simp add: JSON_parse_def lit_def lex.simps is_json_space_def cons_token_def
      parse_tokens_def wants_value_def)

theorem load_never_faults_witness:
  "lit ''not json'' \<noteq> [] \<and> JSON_parse (lit ''not json'') = None \<and>
   load strict_platform (Some (lit ''not json'')) = ([], [SyntaxError]) \<and>
   mount strict_platform (Some (lit ''not json'')) = Some initial \<and>
   load strict_platform (Some (lit ''{}'')) = ([], [TypeError]) \<and>
   mount strict_platform (Some (lit ''{}'')) = Some initial"
proof -
  have ne: "lit ''not json'' \<noteq> []" by (simp add: lit_def)
  have l1: "load strict_platform (Some (lit ''not json'')) = ([], [SyntaxError])"
    "mount strict_platform (Some (lit ''not json'')) = Some initial"
    using load_never_faults [of strict_platform "lit ''not json''" None] ne not_json by blast+
  have l2: "load strict_platform (Some (lit ''{}'')) = ([], [TypeError])"
    by (simp add: load_def object_json) (simp add: lit_def)
  then have "snd (load strict_platform (Some (lit ''{}''))) \<noteq> []" by simp
  then have m2: "mount strict_platform (Some (lit ''{}'')) = Some initial"
    using load_never_faults [of strict_platform "[]" "Some (lit ''{}'')"] by blast
  from ne not_json l1 l2 m2 show ?thesis by simp
qed

text \<open>
  A stored value that does not parse is not always logged: the empty string is no JSON
  text, but the mount effect does not parse it and logs nothing.
\<close>

theorem empty_string_is_not_logged:
  "JSON_parse [] = None \<and> load strict_platform (Some []) = ([], [])"
  by (simp add: JSON_parse_def lex.simps(1) parse_tokens_def load_def)

text \<open>
  Claim C7, as the code has it: for every task list whose timestamps are valid dates (a
  time value of at most 8640000000000000 milliseconds in magnitude, as every valid
  \<open>Date\<close> has), loading what the save effect wrote gives the same task list: the same
  ids, texts, \<open>completed\<close> flags and time values, in the same order, and nothing is
  logged. The string form has the precision of the time value, one millisecond, so the
  timestamps are equal exactly.
\<close>

theorem save_then_load:
  assumes "\<forall>t \<in> set (tasks st). valid_date (createdAt t)"
  shows "load pf (Some (save st)) = (map loaded_task (tasks st), []) \<and>
    as_tasks (fst (load pf (Some (save st)))) = Some (tasks st) \<and>
    mount pf (Some (save st)) = Some (initial\<lparr>tasks := tasks st\<rparr>)"
proof -
  have ok: "\<forall>t \<in> set (tasks st). createdAt t = Invalid_Date \<or> valid_date (createdAt t)"
    using assms by blast
  have same: "map reloaded (tasks st) = tasks st"
    using assms by (simp add: reloaded_valid map_idI)
  have l: "load pf (Some (save st)) = (map loaded_task (tasks st), [])"
    unfolding save_def by (rule load_JSON_stringify [OF ok])
  have a: "as_tasks (fst (load pf (Some (save st)))) = Some (tasks st)"
    unfolding l by (simp add: as_tasks_loaded_task same)
  have m: "mount pf (Some (save st)) = Some (initial\<lparr>tasks := tasks st\<rparr>)"
    using mount_save [OF ok, of pf] by (simp add: same)
  from l a m show ?thesis by blast
qed

theorem save_then_load_witness:
  "valid_date (Time_Value 1000) \<and> valid_date (Time_Value 1730553600123) \<and>
   mount strict_platform
     (Some (save \<lparr>tasks = [\<lparr>task_id = lit ''1000'', task_text = lit ''buy milk'',
                               completed = False, createdAt = Time_Value 1000\<rparr>,
                             \<lparr>task_id = lit ''1730553600123'', task_text = lit ''A'',
                               completed = True, createdAt = Time_Value 1730553600123\<rparr>],
                    newTask = [], filter_sel = Filter_all, isFilterMenuOpen = False\<rparr>)) =
     Some \<lparr>tasks = [\<lparr>task_id = lit ''1000'', task_text = lit ''buy milk'',
                        completed = False, createdAt = Time_Value 1000\<rparr>,
                      \<lparr>task_id = lit ''1730553600123'', task_text = lit ''A'',
                        completed = True, createdAt = Time_Value 1730553600123\<rparr>],
            newTask = [], filter_sel = Filter_all, isFilterMenuOpen = False\<rparr>"
proof -
  let ?a = "\<lparr>task_id = lit ''1000'', task_text = lit ''buy milk'',
             completed = False, createdAt = Time_Value 1000\<rparr>"
  let ?b = "\<lparr>task_id = lit ''1730553600123'', task_text = lit ''A'',
             completed = True, createdAt = Time_Value 1730553600123\<rparr>"
  let ?st = "\<lparr>tasks = [?a, ?b], newTask = [], filter_sel = Filter_all,
              isFilterMenuOpen = False\<rparr>"
  have v: "valid_date (Time_Value 1000)" "valid_date (Time_Value 1730553600123)"
    by (simp_all add: valid_date_def)
  then have every: "\<forall>t \<in> set (tasks ?st). valid_date (createdAt t)"
    by simp
  have "mount strict_platform (Some (save ?st)) = Some (initial\<lparr>tasks := tasks ?st\<rparr>)"
    using save_then_load [OF every, of strict_platform] by blast
  then show ?thesis
    using v by (simp add: initial_def)
qed

text \<open>
  An invalid date does not survive: a stored task without a \<open>createdAt\<close> is loaded
  with an invalid date; the save effect writes that date as \<open>null\<close>, and the next
  mount reads \<open>null\<close> as the time value 0.
\<close>

lemma parse_without_createdAt:
  "JSON_parse (lit ''[{\"id\":\"1\",\"text\":\"a\",\"completed\":false}]'') =
     Some (JArr [JObj [(lit ''id'', JStr (lit ''1'')), (lit ''text'', JStr (lit ''a'')),
                       (lit ''completed'', JBool False)]])"
  by (simp add: JSON_parse_def lit_def lex.simps is_json_space_def strip_prefix_def
      cons_token_def cons_string_def parse_tokens_def wants_value_def)

lemma mount_without_createdAt:
  "mount strict_platform (Some (lit ''[{\"id\":\"1\",\"text\":\"a\",\"completed\":false}]'')) =
     Some \<lparr>tasks = [\<lparr>task_id = lit ''1'', task_text = lit ''a'', completed = False,
                        createdAt = Invalid_Date\<rparr>],
            newTask = [], filter_sel = Filter_all, isFilterMenuOpen = False\<rparr>"
proof -
  have ne: "lit ''[{\"id\":\"1\",\"text\":\"a\",\"completed\":false}]'' \<noteq> []"
    by (simp add: lit_def)
  have get: "obj_get (lit ''createdAt'')
      [(lit ''id'', JStr (lit ''1'')), (lit ''text'', JStr (lit ''a'')),
       (lit ''completed'', JBool False)] = None"
    "obj_get (lit ''id'')
      [(lit ''id'', JStr (lit ''1'')), (lit ''text'', JStr (lit ''a'')),
       (lit ''completed'', JBool False)] = Some (JStr (lit ''1''))"
    "obj_get (lit ''text'')
      [(lit ''id'', JStr (lit ''1'')), (lit ''text'', JStr (lit ''a'')),
       (lit ''completed'', JBool False)] = Some (JStr (lit ''a''))"
    "obj_get (lit ''completed'')
      [(lit ''id'', JStr (lit ''1'')), (lit ''text'', JStr (lit ''a'')),
       (lit ''completed'', JBool False)] = Some (JBool False)"
    using task_keys_distinct by (simp_all add: obj_get_def)
  have l: "load strict_platform (Some (lit ''[{\"id\":\"1\",\"text\":\"a\",\"completed\":false}]'')) =
      ([\<lparr>l_spread = [(lit ''id'', JStr (lit ''1'')), (lit ''text'', JStr (lit ''a'')),
                         (lit ''completed'', JBool False)],
         l_createdAt = Invalid_Date\<rparr>], [])"
    by (simp add: load_def ne parse_without_createdAt get)
  show ?thesis
    unfolding mount_def l by (simp add: as_task_def get initial_def)
qed

theorem invalid_date_reloads_as_epoch:
  "mount strict_platform (Some (lit ''[{\"id\":\"1\",\"text\":\"a\",\"completed\":false}]'')) =
     Some \<lparr>tasks = [\<lparr>task_id = lit ''1'', task_text = lit ''a'', completed = False,
                        createdAt = Invalid_Date\<rparr>],
            newTask = [], filter_sel = Filter_all, isFilterMenuOpen = False\<rparr> \<and>
   mount strict_platform
     (Some (save \<lparr>tasks = [\<lparr>task_id = lit ''1'', task_text = lit ''a'', completed = False,
                               createdAt = Invalid_Date\<rparr>],
                    newTask = [], filter_sel = Filter_all, isFilterMenuOpen = False\<rparr>)) =
     Some \<lparr>tasks = [\<lparr>task_id = lit ''1'', task_text = lit ''a'', completed = False,
                        createdAt = Time_Value 0\<rparr>],
            newTask = [], filter_sel = Filter_all, isFilterMenuOpen = False\<rparr>"
proof -
  let ?t = "\<lparr>task_id = lit ''1'', task_text = lit ''a'', completed = False,
             createdAt = Invalid_Date\<rparr>"
  let ?st = "\<lparr>tasks = [?t], newTask = [], filter_sel = Filter_all, isFilterMenuOpen = False\<rparr>"
  have every: "\<forall>t \<in> set (tasks ?st). createdAt t = Invalid_Date \<or> valid_date (createdAt t)"
    by simp
  have "mount strict_platform (Some (save ?st)) =
      Some (initial\<lparr>tasks := map reloaded (tasks ?st)\<rparr>)"
    by (rule mount_save [OF every])
  then have second: "mount strict_platform (Some (save ?st)) =
      Some \<lparr>tasks = [\<lparr>task_id = lit ''1'', task_text = lit ''a'', completed = False,
                         createdAt = Time_Value 0\<rparr>],
             newTask = [], filter_sel = Filter_all, isFilterMenuOpen = False\<rparr>"
    by (simp add: reloaded_def initial_def)
  from mount_without_createdAt second show ?thesis by blast
qed

end
